theory Spec2Isabelle
  imports Complex_Main
begin

section \<open>Single-precision floating point\<close>

text \<open>
  The C type \<^verbatim>\<open>float\<close> is IEEE 754 binary32: a finite value, one of the two
  infinities, or a NaN.  A finite value is kept as the real number it denotes.  The
  sign of zero is not represented: it cannot be observed through the comparisons of
  the program, and the only zero the program ever divides by is \<^verbatim>\<open>(float)0\<close>,
  a positive zero.
\<close>

datatype cfloat = Fin real | PInf | NInf | NaN

definition FLT_MAX :: real where
  "FLT_MAX = (2 ^ 24 - 1) * 2 ^ 104"

definition FLT_MIN :: real where
  "FLT_MIN = 1 / 2 ^ 126"

text \<open>
  Rounding to nearest, ties to even, with 24 significant bits.  \<open>ulp_search\<close> finds
  the spacing of the binary32 values around a magnitude \<open>a\<close>: it starts at the
  subnormal spacing \<open>2\<^sup>-\<^sup>1\<^sup>4\<^sup>9\<close> and doubles it until \<open>a\<close> is below \<open>2\<^sup>2\<^sup>4\<close> spacings,
  at most 253 times (the spacing \<open>2\<^sup>1\<^sup>0\<^sup>4\<close> of the largest binade).  A result beyond
  \<open>FLT_MAX\<close> is an infinity.
\<close>

definition round_half_even :: "real \<Rightarrow> int" where
  "round_half_even x =
     (let f = \<lfloor>x\<rfloor>; d = x - of_int f
      in if d < 1 / 2 then f else if 1 / 2 < d then f + 1 else if even f then f else f + 1)"

fun ulp_search :: "nat \<Rightarrow> real \<Rightarrow> real \<Rightarrow> real" where
  "ulp_search 0 q a = q"
| "ulp_search (Suc n) q a = (if a < q * 2 ^ 24 then q else ulp_search n (2 * q) a)"

definition FLT_TRUE_MIN :: real where
  "FLT_TRUE_MIN = 1 / 2 ^ 149"

definition ulp32 :: "real \<Rightarrow> real" where
  "ulp32 a = ulp_search 253 FLT_TRUE_MIN a"

definition round32 :: "real \<Rightarrow> real" where
  "round32 x = of_int (round_half_even (x / ulp32 \<bar>x\<bar>)) * ulp32 \<bar>x\<bar>"

definition flt_round :: "real \<Rightarrow> cfloat" where
  "flt_round x =
     (let r = round32 x
      in if FLT_MAX < r then PInf else if r < - FLT_MAX then NInf else Fin r)"

text \<open>Conversions \<^verbatim>\<open>(float)i\<close> from \<^verbatim>\<open>size_t\<close> and from an \<^verbatim>\<open>int\<close> constant.\<close>

definition flt_of_nat :: "nat \<Rightarrow> cfloat" where
  "flt_of_nat n = flt_round (real n)"

definition flt_of_int :: "int \<Rightarrow> cfloat" where
  "flt_of_int k = flt_round (of_int k)"

fun fneg :: "cfloat \<Rightarrow> cfloat" where
  "fneg (Fin a) = Fin (- a)"
| "fneg PInf = NInf"
| "fneg NInf = PInf"
| "fneg NaN = NaN"

fun fabsf :: "cfloat \<Rightarrow> cfloat" where
  "fabsf (Fin a) = Fin \<bar>a\<bar>"
| "fabsf PInf = PInf"
| "fabsf NInf = PInf"
| "fabsf NaN = NaN"

fun fadd :: "cfloat \<Rightarrow> cfloat \<Rightarrow> cfloat" where
  "fadd NaN y = NaN"
| "fadd x NaN = NaN"
| "fadd (Fin a) (Fin b) = flt_round (a + b)"
| "fadd PInf NInf = NaN"
| "fadd NInf PInf = NaN"
| "fadd PInf y = PInf"
| "fadd NInf y = NInf"
| "fadd (Fin a) y = y"

definition fsub :: "cfloat \<Rightarrow> cfloat \<Rightarrow> cfloat" where
  "fsub x y = fadd x (fneg y)"

fun fmul :: "cfloat \<Rightarrow> cfloat \<Rightarrow> cfloat" where
  "fmul NaN y = NaN"
| "fmul x NaN = NaN"
| "fmul (Fin a) (Fin b) = flt_round (a * b)"
| "fmul (Fin a) y = (if a = 0 then NaN else if 0 < a then y else fneg y)"
| "fmul x (Fin b) = (if b = 0 then NaN else if 0 < b then x else fneg x)"
| "fmul PInf y = y"
| "fmul NInf y = fneg y"

text \<open>
  Division: a finite nonzero value divided by zero is an infinity of the sign of the
  dividend, zero by zero and infinity by infinity are NaN.
\<close>

fun fdiv :: "cfloat \<Rightarrow> cfloat \<Rightarrow> cfloat" where
  "fdiv NaN y = NaN"
| "fdiv x NaN = NaN"
| "fdiv (Fin a) (Fin b) =
     (if b = 0 then (if a = 0 then NaN else if 0 < a then PInf else NInf)
      else flt_round (a / b))"
| "fdiv (Fin a) y = Fin 0"
| "fdiv x (Fin b) = (if 0 \<le> b then x else fneg x)"
| "fdiv x y = NaN"

text \<open>The comparisons \<^verbatim>\<open><\<close> and \<^verbatim>\<open><=\<close>: false as soon as one side is NaN.\<close>

fun flt :: "cfloat \<Rightarrow> cfloat \<Rightarrow> bool" where
  "flt NaN y = False"
| "flt x NaN = False"
| "flt (Fin a) (Fin b) = (a < b)"
| "flt (Fin a) PInf = True"
| "flt (Fin a) NInf = False"
| "flt PInf y = False"
| "flt NInf NInf = False"
| "flt NInf y = True"

definition fle :: "cfloat \<Rightarrow> cfloat \<Rightarrow> bool" where
  "fle x y = (x \<noteq> NaN \<and> y \<noteq> NaN \<and> \<not> flt y x)"

definition isinf :: "cfloat \<Rightarrow> bool" where
  "isinf x = (x = PInf \<or> x = NInf)"

definition isnan :: "cfloat \<Rightarrow> bool" where
  "isnan x = (x = NaN)"

section \<open>The C library: strings, scanning, numeric conversion\<close>

text \<open>
  A C string ends at its first NUL byte; \<open>c_str\<close> is what \<^verbatim>\<open>strlen\<close>,
  \<^verbatim>\<open>sscanf\<close> and \<^verbatim>\<open>strtof\<close> see of a buffer.  The character classes are those
  of the C locale.
\<close>

definition c_str :: "string \<Rightarrow> string" where
  "c_str buf = takeWhile (\<lambda>c. c \<noteq> CHR 0x00) buf"

definition isspace :: "char \<Rightarrow> bool" where
  "isspace c = (c = CHR 0x20 \<or> c = CHR 0x09 \<or> c = CHR 0x0A \<or> c = CHR 0x0B \<or> c = CHR 0x0C \<or> c = CHR 0x0D)"

definition isdigit :: "char \<Rightarrow> bool" where
  "isdigit c = (c \<in> set ''0123456789'')"

definition isxdigit :: "char \<Rightarrow> bool" where
  "isxdigit c = (c \<in> set ''0123456789abcdefABCDEF'')"

definition isalpha :: "char \<Rightarrow> bool" where
  "isalpha c = (c \<in> set ''abcdefghijklmnopqrstuvwxyzABCDEFGHIJKLMNOPQRSTUVWXYZ'')"

definition tolower :: "char \<Rightarrow> char" where
  "tolower c = (if c \<in> set ''ABCDEFGHIJKLMNOPQRSTUVWXYZ'' then char_of (of_char c + (32::nat)) else c)"

definition xdigit_val :: "char \<Rightarrow> nat" where
  "xdigit_val c =
     (if isdigit c then of_char c - 48
      else if c \<in> set ''abcdef'' then of_char c - 87
      else of_char c - 55)"

text \<open>The value of a digit string in base \<open>b\<close>, most significant digit first.\<close>

definition digits_val :: "nat \<Rightarrow> string \<Rightarrow> nat" where
  "digits_val b ds = foldl (\<lambda>a c. b * a + xdigit_val c) 0 ds"

text \<open>
  \<^verbatim>\<open>fgets(line, size, fp)\<close>.  An open file is the string of its unread bytes.
  \<open>fgets_buf n\<close> takes at most \<open>n\<close> bytes and stops after a newline; \<open>fgets\<close>
  returns \<open>None\<close> (the null pointer) at end of file, else the bytes stored in the
  buffer and the file behind them.
\<close>

fun fgets_buf :: "nat \<Rightarrow> string \<Rightarrow> string \<times> string" where
  "fgets_buf 0 fp = ([], fp)"
| "fgets_buf (Suc n) [] = ([], [])"
| "fgets_buf (Suc n) (c # fp) =
     (if c = CHR 0x0A then ([c], fp)
      else (case fgets_buf n fp of (buf, fp') \<Rightarrow> (c # buf, fp')))"

definition fgets :: "nat \<Rightarrow> string \<Rightarrow> (string \<times> string) option" where
  "fgets size_buf fp = (if fp = [] then None else Some (fgets_buf (size_buf - 1) fp))"

text \<open>
  The directives \<^verbatim>\<open>%31s %n\<close> of \<^verbatim>\<open>sscanf\<close> (a leading blank in the format changes
  nothing, \<^verbatim>\<open>%s\<close> skips white space itself): skip white space; at the end of the
  string the conversion fails and nothing is stored (\<open>None\<close>); else the token is the
  run of non-blank characters, cut at \<open>w\<close> characters, and \<^verbatim>\<open>%n\<close> stores the number
  of characters read, the white space after the token included.
\<close>

definition scan_s :: "nat \<Rightarrow> string \<Rightarrow> (string \<times> nat) option" where
  "scan_s w s =
     (let ws = takeWhile isspace s; s1 = dropWhile isspace s
      in if s1 = [] then None
         else (let tok = take w (takeWhile (\<lambda>c. \<not> isspace c) s1);
                   ws2 = takeWhile isspace (drop (length tok) s1)
               in Some (tok, length ws + length tok + length ws2)))"

text \<open>Ordinary characters of a format: they must match the input one by one.\<close>

definition scan_lit :: "string \<Rightarrow> string \<Rightarrow> string option" where
  "scan_lit fmt s = (if take (length fmt) s = fmt then Some (drop (length fmt) s) else None)"

text \<open>\<^verbatim>\<open>strstr(tag, p) == tag\<close>: the first occurrence of \<open>p\<close> in \<open>tag\<close> is at its start.\<close>

definition starts_with :: "string \<Rightarrow> string \<Rightarrow> bool" where
  "starts_with p tag = (take (length p) tag = p)"

text \<open>
  The directive \<^verbatim>\<open>%d\<close>: white space, an optional sign, decimal digits, at least one.
\<close>

definition scan_d :: "string \<Rightarrow> int option" where
  "scan_d s =
     (let s1 = dropWhile isspace s;
          neg = (s1 \<noteq> [] \<and> hd s1 = CHR ''-'');
          s2 = (if s1 \<noteq> [] \<and> (hd s1 = CHR ''-'' \<or> hd s1 = CHR ''+'') then tl s1 else s1);
          ds = takeWhile isdigit s2
      in if ds = [] then None
         else Some (if neg then - int (digits_val 10 ds) else int (digits_val 10 ds)))"

text \<open>
  Floating-point input, after ISO C (7.22.1.3 for \<^verbatim>\<open>strtof\<close>, 7.21.6.2 for the
  directive \<^verbatim>\<open>%f\<close>).  The subject sequence is an optional sign and then
  \<^verbatim>\<open>inf\<close> or \<^verbatim>\<open>infinity\<close>, \<^verbatim>\<open>nan\<close> with an optional parenthesised sequence, a
  hexadecimal or a decimal number with an optional exponent, letters in either case.
  Every scanner returns the value of the longest subject sequence at the start of the
  string and a flag: the flag is set when more characters follow that continue a
  number without completing one (\<^verbatim>\<open>1e+\<close>, \<^verbatim>\<open>0x\<close>, \<^verbatim>\<open>infin\<close>).  \<^verbatim>\<open>strtof\<close>
  ignores the flag; \<^verbatim>\<open>%f\<close> reads those characters too and then fails to match.
\<close>

definition exp_part :: "char \<Rightarrow> string \<Rightarrow> int \<times> bool" where
  "exp_part m s =
     (case s of
        [] \<Rightarrow> (0, False)
      | c # t \<Rightarrow>
          if tolower c \<noteq> m then (0, False)
          else (let neg = (t \<noteq> [] \<and> hd t = CHR ''-'');
                    t1 = (if t \<noteq> [] \<and> (hd t = CHR ''-'' \<or> hd t = CHR ''+'') then tl t else t);
                    ds = takeWhile isdigit t1
                in if ds = [] then (0, True)
                   else (if neg then - int (digits_val 10 ds) else int (digits_val 10 ds), False)))"

definition mantissa :: "nat \<Rightarrow> (char \<Rightarrow> bool) \<Rightarrow> string \<Rightarrow> (real \<times> string) option" where
  "mantissa b isd s =
     (let ip = takeWhile isd s; s1 = dropWhile isd s;
          fr = (case s1 of [] \<Rightarrow> [] | c # t \<Rightarrow> if c = CHR ''.'' then takeWhile isd t else []);
          s2 = (case s1 of [] \<Rightarrow> [] | c # t \<Rightarrow> if c = CHR ''.'' then dropWhile isd t else s1)
      in if ip = [] \<and> fr = [] then None
         else Some (real (digits_val b (ip @ fr)) / real b ^ length fr, s2))"

definition nan_dangling :: "string \<Rightarrow> bool" where
  "nan_dangling s =
     (case s of
        [] \<Rightarrow> False
      | c # t \<Rightarrow> c = CHR ''('' \<and>
          take 1 (dropWhile (\<lambda>c. isdigit c \<or> isalpha c \<or> c = CHR ''_'') t) \<noteq> '')'')"

definition float_unsigned :: "string \<Rightarrow> (cfloat \<times> bool) option" where
  "float_unsigned s =
     (if map tolower (take 8 s) = ''infinity'' then Some (PInf, False)
      else if map tolower (take 3 s) = ''inf'' then
        Some (PInf, map tolower (take 1 (drop 3 s)) = ''i'')
      else if map tolower (take 3 s) = ''nan'' then Some (NaN, nan_dangling (drop 3 s))
      else if map tolower (take 2 s) = ''0x'' then
        (case mantissa 16 isxdigit (drop 2 s) of
           None \<Rightarrow> Some (Fin 0, True)
         | Some (m, s2) \<Rightarrow>
             (case exp_part (CHR ''p'') s2 of (e, d) \<Rightarrow> Some (flt_round (m * 2 powi e), d)))
      else
        (case mantissa 10 isdigit s of
           None \<Rightarrow> None
         | Some (m, s2) \<Rightarrow>
             (case exp_part (CHR ''e'') s2 of (e, d) \<Rightarrow> Some (flt_round (m * 10 powi e), d))))"

definition float_subject :: "string \<Rightarrow> (cfloat \<times> bool) option" where
  "float_subject s =
     (case s of
        [] \<Rightarrow> None
      | c # t \<Rightarrow>
          if c = CHR ''-'' then map_option (\<lambda>(v, d). (fneg v, d)) (float_unsigned t)
          else if c = CHR ''+'' then float_unsigned t
          else float_unsigned s)"

text \<open>\<^verbatim>\<open>strtof(s, NULL)\<close>: zero when no conversion can be performed.\<close>

definition strtof :: "string \<Rightarrow> cfloat" where
  "strtof s = (case float_subject (dropWhile isspace s) of None \<Rightarrow> Fin 0 | Some (v, d) \<Rightarrow> v)"

text \<open>
  \<^verbatim>\<open>sscanf(s, "%f", &f)\<close>: \<open>Some f\<close> when it returns 1 and stores \<open>f\<close>, \<open>None\<close>
  when it returns 0 or \<^verbatim>\<open>EOF\<close> and stores nothing.
\<close>

definition sscanf_f :: "string \<Rightarrow> cfloat option" where
  "sscanf_f s =
     (case float_subject (dropWhile isspace s) of
        None \<Rightarrow> None
      | Some (v, d) \<Rightarrow> if d then None else Some v)"

section \<open>The program state\<close>

text \<open>
  \<^verbatim>\<open>struct graphdata_s\<close>.  The field \<^verbatim>\<open>size\<close> is \<open>size_g\<close> here.  The buffer
  \<^verbatim>\<open>data\<close> is the list of its cells, \<open>None\<close> for a cell that \<^verbatim>\<open>malloc\<close> returned
  and nothing has written yet.  The static instance starts zeroed.
\<close>

record graphdata =
  msaa :: int
  save :: int
  line_width :: cfloat
  frame_px :: cfloat
  max_value :: cfloat
  min_value :: cfloat
  tick_size :: cfloat
  size_g :: nat
  data :: "cfloat option list"

definition graphdata0 :: graphdata where
  "graphdata0 =
     \<lparr>msaa = 0, save = 0, line_width = Fin 0, frame_px = Fin 0, max_value = Fin 0,
      min_value = Fin 0, tick_size = Fin 0, size_g = 0, data = []\<rparr>"

definition WIDTH :: int where "WIDTH = 1152"
definition HEIGHT :: int where "HEIGHT = 648"

definition INT_MAX :: int where "INT_MAX = 2 ^ 31 - 1"
definition INT_MIN :: int where "INT_MIN = - (2 ^ 31)"

text \<open>
  The steps of the program whose behaviour C leaves undefined: \<^verbatim>\<open>strlen\<close> of the
  null pointer that \<^verbatim>\<open>fgets\<close> returns on an empty file (line 127); \<^verbatim>\<open>strcmp\<close>
  reading \<^verbatim>\<open>tag\<close> when nothing has written it (line 131); the call
  \<^verbatim>\<open>lprintf("%s: invalid header format\n")\<close>, which has no argument for its
  \<^verbatim>\<open>%s\<close> (line 132); the call \<^verbatim>\<open>lprintf("%s: warning: unknown tag: %s\n", tag)\<close>,
  which has one argument for two \<^verbatim>\<open>%s\<close> (line 158); a \<^verbatim>\<open>%d\<close> whose number does not
  fit an \<^verbatim>\<open>int\<close>; and, in the mesh loop, reading \<^verbatim>\<open>data[i]\<close> outside the buffer
  or from a cell that was never written.
\<close>

datatype ub =
    Null_line
  | Unset_tag
  | Header_message
  | Tag_message string
  | Int_range
  | Data_read nat

text \<open>
  What a run ends in.  \<open>IoError\<close>: the file cannot be opened, \<^verbatim>\<open>read_undgraph\<close>
  prints \<^verbatim>\<open>strerror(errno)\<close> and returns 0.  \<open>Abort\<close>: a failed \<^verbatim>\<open>assert\<close>.
  \<open>Undefined u\<close>: the run reaches the step \<open>u\<close>.  The exit of \<^verbatim>\<open>read_undgraph\<close>
  for a refused header, the format error of the specification, is
  \<open>Undefined Header_message\<close>: the message comes before \<^verbatim>\<open>goto error\<close>.
\<close>

datatype 'a outcome = Ok 'a | IoError | Abort | Undefined ub

text \<open>The lines written to \<^verbatim>\<open>stderr\<close> by a run that goes on.\<close>

datatype diag =
    Found_values nat
  | Vertex_x_inf nat
  | Vertex_x_nan nat
  | Vertex_y_inf nat
  | Vertex_y_nan nat

text \<open>
  The environment of a run: the files that \<^verbatim>\<open>fopen(filename, "r")\<close> can open, with
  their contents, and the requests, in bytes, for which \<^verbatim>\<open>malloc\<close> returns a non-null
  pointer.
\<close>

record env =
  fopen_r :: "string \<Rightarrow> string option"
  malloc_ok :: "nat \<Rightarrow> bool"

section \<open>\<^verbatim>\<open>read_undgraph\<close>\<close>

text \<open>
  One header tag, the body of the \<^verbatim>\<open>while\<close> loop over the header.  A tag that starts
  with a key is given to \<^verbatim>\<open>sscanf\<close> with the format of that key, whose result is not
  looked at: the field is stored only when the whole format matches.  A tag that
  starts with none of the keys goes to the warning of line 158.  \<open>store_int\<close> is
  \<open>None\<close> when \<^verbatim>\<open>%d\<close> reads a number that does not fit an \<^verbatim>\<open>int\<close>.
\<close>

definition store_int :: "string \<Rightarrow> string \<Rightarrow> int option option" where
  "store_int fmt tag =
     (case scan_lit fmt tag of
        None \<Rightarrow> Some None
      | Some s \<Rightarrow>
          (case scan_d s of
             None \<Rightarrow> Some None
           | Some v \<Rightarrow> if INT_MIN \<le> v \<and> v \<le> INT_MAX then Some (Some v) else None))"

definition store_float :: "string \<Rightarrow> string \<Rightarrow> cfloat option" where
  "store_float fmt tag = (case scan_lit fmt tag of None \<Rightarrow> None | Some s \<Rightarrow> sscanf_f s)"

definition read_tag :: "string \<Rightarrow> graphdata \<Rightarrow> graphdata outcome" where
  "read_tag tag g =
     (if starts_with ''msaa'' tag then
        (case store_int ''msaa:'' tag of
           None \<Rightarrow> Undefined Int_range
         | Some None \<Rightarrow> Ok g
         | Some (Some v) \<Rightarrow> Ok (g\<lparr>msaa := v\<rparr>))
      else if starts_with ''save'' tag then
        (case store_int ''save:'' tag of
           None \<Rightarrow> Undefined Int_range
         | Some None \<Rightarrow> Ok g
         | Some (Some v) \<Rightarrow> Ok (g\<lparr>save := v\<rparr>))
      else if starts_with ''lw'' tag then
        (case store_float ''lw:'' tag of
           None \<Rightarrow> Ok g
         | Some v \<Rightarrow> Ok (g\<lparr>line_width := v\<rparr>))
      else if starts_with ''frame_px'' tag then
        (case store_float ''frame_px:'' tag of
           None \<Rightarrow> Ok g
         | Some v \<Rightarrow> Ok (g\<lparr>frame_px := v\<rparr>))
      else Undefined (Tag_message tag))"

lemma fgets_buf_append: "fgets_buf n fp = (buf, fp') \<Longrightarrow> buf @ fp' = fp"
  by (induction n fp arbitrary: buf fp' rule: fgets_buf.induct) (auto split: if_splits prod.splits)

lemma fgets_buf_nonempty: "fgets_buf (Suc n) (c # fp) = (buf, fp') \<Longrightarrow> buf \<noteq> []"
  by (auto split: if_splits prod.splits)

lemma fgets_shorter:
  assumes "fgets (Suc (Suc n)) fp = Some (buf, fp')"
  shows "length fp' < length fp"
proof -
  from assms obtain c cs where fp: "fp = c # cs" and b: "fgets_buf (Suc n) (c # cs) = (buf, fp')"
    by (cases fp) (auto simp: fgets_def)
  from b have "buf \<noteq> []" by (rule fgets_buf_nonempty)
  moreover from b have "buf @ fp' = fp" unfolding fp by (rule fgets_buf_append)
  ultimately show ?thesis by (cases buf) auto
qed

lemma scan_s_Some:
  assumes "scan_s w s = Some (tag, n)" and "0 < w"
  shows "tag \<noteq> [] \<and> 0 < n \<and> n \<le> length s"
proof -
  let ?ws = "takeWhile isspace s" and ?s1 = "dropWhile isspace s"
  let ?tok = "take w (takeWhile (\<lambda>c. \<not> isspace c) ?s1)"
  let ?ws2 = "takeWhile isspace (drop (length ?tok) ?s1)"
  from assms have ne: "?s1 \<noteq> []" and tag: "tag = ?tok"
    and n: "n = length ?ws + length ?tok + length ?ws2"
    by (auto simp: scan_s_def Let_def split: if_splits)
  from ne have "\<not> isspace (hd ?s1)" by (rule hd_dropWhile)
  with ne have "takeWhile (\<lambda>c. \<not> isspace c) ?s1 \<noteq> []" by (cases ?s1) auto
  with \<open>0 < w\<close> have tok: "?tok \<noteq> []" by (cases w) (auto simp: neq_Nil_conv)
  have "length ?ws2 \<le> length (drop (length ?tok) ?s1)" by (rule length_takeWhile_le)
  moreover have "length ?tok \<le> length ?s1"
    using length_takeWhile_le [of "\<lambda>c. \<not> isspace c" ?s1] by simp
  moreover have "length ?ws + length ?s1 = length s"
    by (metis length_append takeWhile_dropWhile_id)
  ultimately have "n \<le> length s" unfolding n by simp
  with tok tag n show ?thesis by simp
qed

text \<open>
  The loop over the header tags.  \<open>line\<close> is the header buffer, \<open>i\<close> its
  \<^verbatim>\<open>strlen\<close>, \<open>lp\<close> the offset \<^verbatim>\<open>lp - line\<close> and \<open>nc\<close> the count stored by the
  last \<^verbatim>\<open>%n\<close>.  The condition tests \<open>lp\<close> before \<^verbatim>\<open>lp += nc\<close> moves it.
\<close>

function header_tags ::
  "string \<Rightarrow> nat \<Rightarrow> nat \<Rightarrow> nat \<Rightarrow> graphdata \<Rightarrow> graphdata outcome" where
  "header_tags line i lp nc g =
     (if lp < i then
        (case scan_s 31 (drop (lp + nc) line) of
           None \<Rightarrow> Ok g
         | Some (tag, nc') \<Rightarrow>
             (case read_tag tag g of
                Ok g' \<Rightarrow> header_tags line i (lp + nc) nc' g'
              | IoError \<Rightarrow> IoError
              | Abort \<Rightarrow> Abort
              | Undefined u \<Rightarrow> Undefined u))
      else Ok g)"
  by pat_completeness auto
termination
proof (relation "measure (\<lambda>(line, i, lp, nc, g). length line - (lp + nc))")
  show "wf (measure (\<lambda>(line, i, lp, nc, g). length line - (lp + nc)))" by simp
next
  fix line :: string and i lp nc :: nat and g g' :: graphdata
    and x2 :: "string \<times> nat" and tag nc'
  assume "scan_s 31 (drop (lp + nc) line) = Some x2" and "(tag, nc') = x2"
  then have "scan_s 31 (drop (lp + nc) line) = Some (tag, nc')" by simp
  then have "0 < nc' \<and> nc' \<le> length (drop (lp + nc) line)" using scan_s_Some by fastforce
  then show "((line, i, lp + nc, nc', g'), (line, i, lp, nc, g))
      \<in> measure (\<lambda>(line, i, lp, nc, g). length line - (lp + nc))"
    by auto
qed

text \<open>The first pass: count the lines up to the first one \<^verbatim>\<open>%f\<close> does not match.\<close>

function count_lines :: "string \<Rightarrow> nat \<Rightarrow> nat" where
  "count_lines fp n =
     (case fgets 64 fp of
        None \<Rightarrow> n
      | Some (buf, fp') \<Rightarrow>
          (case sscanf_f (c_str buf) of
             None \<Rightarrow> n
           | Some f \<Rightarrow> count_lines fp' (Suc n)))"
  by pat_completeness auto
termination
  by (relation "measure (\<lambda>(fp, n). length fp)")
     (auto simp: eval_nat_numeral dest: fgets_shorter)

text \<open>
  The second pass.  The body of its loop stores the sample \<open>f\<close> in cell \<open>i\<close>, after
  the two comparisons have raised \<^verbatim>\<open>max_value\<close> and lowered \<^verbatim>\<open>min_value\<close>.
  \<^verbatim>\<open>fgets\<close> is called before \<^verbatim>\<open>i < data->size\<close> is tested.
\<close>

definition store_sample :: "graphdata \<Rightarrow> nat \<Rightarrow> cfloat \<Rightarrow> graphdata" where
  "store_sample g i f =
     (let g1 = (if flt (max_value g) f then g\<lparr>max_value := f\<rparr> else g);
          g2 = (if flt f (min_value g1) then g1\<lparr>min_value := f\<rparr> else g1)
      in g2\<lparr>data := (data g2)[i := Some f]\<rparr>)"

function fill_data :: "string \<Rightarrow> nat \<Rightarrow> graphdata \<Rightarrow> graphdata" where
  "fill_data fp i g =
     (case fgets 64 fp of
        None \<Rightarrow> g
      | Some (buf, fp') \<Rightarrow>
          if i < size_g g then fill_data fp' (Suc i) (store_sample g i (strtof (c_str buf)))
          else g)"
  by pat_completeness auto
termination
  by (relation "measure (\<lambda>(fp, i, g). length fp)")
     (auto simp: eval_nat_numeral dest: fgets_shorter)

text \<open>
  The lines of an open file as the two passes see them: the strings that successive
  calls of \<^verbatim>\<open>fgets(line, 64, fp)\<close> leave in the buffer.  A line of the file longer
  than 63 bytes comes in several pieces.
\<close>

function lines_of :: "string \<Rightarrow> string list" where
  "lines_of fp =
     (case fgets 64 fp of
        None \<Rightarrow> []
      | Some (buf, fp') \<Rightarrow> c_str buf # lines_of fp')"
  by pat_completeness auto
termination
  by (relation "measure length") (auto simp: eval_nat_numeral dest: fgets_shorter)

text \<open>
  The end of \<^verbatim>\<open>read_undgraph\<close>, from \<^verbatim>\<open>i = 0\<close> on: the second pass over the
  data lines \<open>fp\<close> and the tick size.
\<close>

definition read_data :: "string \<Rightarrow> graphdata \<Rightarrow> graphdata" where
  "read_data fp g =
     (let g4 = fill_data fp 0 (g\<lparr>max_value := Fin FLT_MIN, min_value := Fin FLT_MAX\<rparr>)
      in g4\<lparr>tick_size :=
              fdiv (fabsf (fsub (max_value g4) (min_value g4))) (flt_of_nat (size_g g4))\<rparr>)"

text \<open>The default tag values.\<close>

definition default_tags :: "graphdata \<Rightarrow> graphdata" where
  "default_tags g = g\<lparr>msaa := 0, save := 0, line_width := Fin 1, frame_px := Fin 0\<rparr>"

text \<open>
  \<^verbatim>\<open>read_undgraph(filename, &graphdata)\<close>.  The header is the first \<^verbatim>\<open>fgets\<close> of
  the file, at most 63 bytes.  After the count, \<^verbatim>\<open>fseek\<close> goes back to the start of
  the file and one \<^verbatim>\<open>fgets\<close> skips the header.  The count is a \<^verbatim>\<open>size_t\<close>; it is
  a natural number here, since a file has fewer lines than \<^verbatim>\<open>size_t\<close> has values.
\<close>

definition read_undgraph :: "env \<Rightarrow> string \<Rightarrow> (graphdata \<times> diag list) outcome" where
  "read_undgraph e filename =
     (case fopen_r e filename of
        None \<Rightarrow> IoError
      | Some file \<Rightarrow>
          (case fgets 64 file of
             None \<Rightarrow> Undefined Null_line
           | Some (buf, fp) \<Rightarrow>
               (let line = c_str buf; i = length line
                in case scan_s 31 line of
                     None \<Rightarrow> Undefined Unset_tag
                   | Some (tag, nc) \<Rightarrow>
                       if tag \<noteq> ''undgraph'' then Undefined Header_message
                       else
                         (case header_tags line i 0 nc (default_tags graphdata0) of
                            Ok g1 \<Rightarrow>
                              (let g2 = g1\<lparr>size_g := count_lines fp 0\<rparr>;
                                   out = [Found_values (size_g g2)]
                               in if \<not> malloc_ok e (4 * size_g g2) then Abort
                                  else
                                    (let g3 = g2\<lparr>data := replicate (size_g g2) None\<rparr>;
                                         fp2 = (case fgets 64 file of
                                                  None \<Rightarrow> file
                                                | Some (buf2, rest) \<Rightarrow> rest)
                                     in Ok (read_data fp2 g3, out)))
                          | IoError \<Rightarrow> IoError
                          | Abort \<Rightarrow> Abort
                          | Undefined u \<Rightarrow> Undefined u))))"

section \<open>The mesh, in \<^verbatim>\<open>main\<close>\<close>

text \<open>
  The two assignments of the loop body, for the sample \<open>v = data[i]\<close>.  The integer
  constants are converted to \<^verbatim>\<open>float\<close> by the usual arithmetic conversions, and
  \<^verbatim>\<open>*\<close> and \<^verbatim>\<open>/\<close> associate to the left.
\<close>

definition vertex_x :: "graphdata \<Rightarrow> nat \<Rightarrow> cfloat" where
  "vertex_x g i =
     fadd (frame_px g)
       (fdiv (fmul (flt_of_nat i) (fsub (flt_of_int WIDTH) (fmul (frame_px g) (flt_of_int 2))))
             (flt_of_nat (size_g g)))"

definition vertex_y :: "graphdata \<Rightarrow> cfloat \<Rightarrow> cfloat" where
  "vertex_y g v =
     fadd (frame_px g)
       (fmul (fdiv v (max_value g)) (fsub (flt_of_int HEIGHT) (fmul (frame_px g) (flt_of_int 2))))"

definition vertex_warnings :: "nat \<Rightarrow> cfloat \<Rightarrow> cfloat \<Rightarrow> diag list" where
  "vertex_warnings i x y =
     (if isinf x then [Vertex_x_inf i] else if isnan x then [Vertex_x_nan i] else []) @
     (if isinf y then [Vertex_y_inf i] else if isnan y then [Vertex_y_nan i] else [])"

text \<open>
  The \<^verbatim>\<open>for\<close> loop.  Reading \<^verbatim>\<open>data[i]\<close> outside the buffer, or from a cell that
  was never written, is \<open>Undefined (Data_read i)\<close>.
\<close>

function mesh_loop ::
  "graphdata \<Rightarrow> nat \<Rightarrow> (cfloat \<times> cfloat) option list \<Rightarrow> diag list
     \<Rightarrow> ((cfloat \<times> cfloat) option list \<times> diag list) outcome" where
  "mesh_loop g i mesh out =
     (if i < size_g g then
        (if i < length (data g) then
           (case data g ! i of
              None \<Rightarrow> Undefined (Data_read i)
            | Some v \<Rightarrow>
                (let x = vertex_x g i; y = vertex_y g v
                 in mesh_loop g (Suc i) (mesh[i := Some (x, y)]) (out @ vertex_warnings i x y)))
         else Undefined (Data_read i))
      else Ok (mesh, out))"
  by pat_completeness auto
termination
  by (relation "measure (\<lambda>(g, i, mesh, out). size_g g - i)") auto

text \<open>
  The mesh block of \<^verbatim>\<open>main\<close> (\<^verbatim>\<open>sizeof(vec2_t)\<close> is 8), reached once the window
  and the shaders are set up, and \<^verbatim>\<open>read_undgraph\<close> followed by it.
\<close>

definition build_mesh ::
  "env \<Rightarrow> graphdata \<Rightarrow> ((cfloat \<times> cfloat) option list \<times> diag list) outcome" where
  "build_mesh e g =
     (if \<not> malloc_ok e (8 * size_g g) then Abort
      else mesh_loop g 0 (replicate (size_g g) None) [])"

definition load_mesh ::
  "env \<Rightarrow> string \<Rightarrow> ((cfloat \<times> cfloat) option list \<times> diag list) outcome" where
  "load_mesh e filename =
     (case read_undgraph e filename of
        Ok (g, out) \<Rightarrow> build_mesh e g
      | IoError \<Rightarrow> IoError
      | Abort \<Rightarrow> Abort
      | Undefined u \<Rightarrow> Undefined u)"

section \<open>Notions used to state the properties\<close>

text \<open>
  \<open>bounded g\<close>: neither bound is a NaN, and every sample stored in the buffer that
  is not a NaN lies between \<^verbatim>\<open>min_value\<close> and \<^verbatim>\<open>max_value\<close>.
\<close>

definition bounded :: "graphdata \<Rightarrow> bool" where
  "bounded g = (max_value g \<noteq> NaN \<and> min_value g \<noteq> NaN \<and>
     (\<forall>v. Some v \<in> set (data g) \<longrightarrow> v \<noteq> NaN \<longrightarrow> fle (min_value g) v \<and> fle v (max_value g)))"

text \<open>A sample line: one that the directive \<^verbatim>\<open>%f\<close> of the first pass accepts.\<close>

definition sample_line :: "string \<Rightarrow> bool" where
  "sample_line l = (sscanf_f l \<noteq> None)"

text \<open>
  The first line of a file, without its newline, and the first token of a string:
  the characters up to the first white space, after any leading white space.
\<close>

definition first_line :: "string \<Rightarrow> string" where
  "first_line content = takeWhile (\<lambda>c. c \<noteq> CHR 0x0A) content"

definition first_token :: "string \<Rightarrow> string" where
  "first_token s = takeWhile (\<lambda>c. \<not> isspace c) (dropWhile isspace s)"

text \<open>
  An environment with the single file \<^verbatim>\<open>undgraph.txt\<close>, in which every allocation
  succeeds.
\<close>

definition file_env :: "string \<Rightarrow> env" where
  "file_env content =
     \<lparr>fopen_r = (\<lambda>fn. if fn = ''undgraph.txt'' then Some content else None),
      malloc_ok = (\<lambda>n. True)\<rparr>"

section \<open>Properties of the rounding\<close>

text \<open>
  \<open>round32\<close> is monotone and odd, and leaves every value of the format as it is: a
  multiple \<open>m * 2\<^sup>e * FLT_TRUE_MIN\<close> with \<open>\<bar>m\<bar> < 2\<^sup>2\<^sup>4\<close> and \<open>e \<le> 253\<close>.
\<close>


lemma rhe_of_int: "round_half_even (of_int k) = k"
  by (simp add: round_half_even_def)

lemma rhe_bounds: "\<lfloor>x\<rfloor> \<le> round_half_even x \<and> round_half_even x \<le> \<lfloor>x\<rfloor> + 1"
  by (simp add: round_half_even_def Let_def)

lemma rhe_mono:
  assumes "x \<le> y"
  shows "round_half_even x \<le> round_half_even y"
proof (cases "\<lfloor>x\<rfloor> = \<lfloor>y\<rfloor>")
  case True
  with assms show ?thesis by (auto simp: round_half_even_def Let_def)
next
  case False
  with assms have "\<lfloor>x\<rfloor> + 1 \<le> \<lfloor>y\<rfloor>" using floor_mono [OF assms] by linarith
  with rhe_bounds [of x] rhe_bounds [of y] show ?thesis by linarith
qed

lemma rhe_minus: "round_half_even (- x) = - round_half_even x"
proof (cases "x = of_int \<lfloor>x\<rfloor>")
  case True
  then obtain k where "x = of_int k" ..
  then show ?thesis using rhe_of_int [of k] rhe_of_int [of "- k"] by simp
next
  case False
  then have fl: "\<lfloor>- x\<rfloor> = - \<lfloor>x\<rfloor> - 1"
    by (metis ceiling_altdef ceiling_def of_int_floor_cancel add.commute add_uminus_conv_diff minus_add_distrib minus_minus)
  have "x - of_int \<lfloor>x\<rfloor> \<noteq> 0" using False by simp
  show ?thesis using False
    by (auto simp: round_half_even_def Let_def fl)
qed

lemma ulp_search_form:
  assumes "0 < q"
  shows "\<exists>j\<le>n. ulp_search n q a = q * 2 ^ j \<and> (j < n \<longrightarrow> a < q * 2 ^ j * 2 ^ 24)
            \<and> (0 < j \<longrightarrow> q * 2 ^ j * 2 ^ 23 \<le> a)"
  using assms
proof (induction n arbitrary: q)
  case 0
  then show ?case by simp
next
  case (Suc n)
  show ?case
  proof (cases "a < q * 2 ^ 24")
    case True
    then show ?thesis by (intro exI [of _ 0]) simp
  next
    case False
    from Suc.prems have "0 < 2 * q" by simp
    from Suc.IH [OF this] obtain j where j: "j \<le> n" "ulp_search n (2 * q) a = 2 * q * 2 ^ j"
      "j < n \<longrightarrow> a < 2 * q * 2 ^ j * 2 ^ 24" "0 < j \<longrightarrow> 2 * q * 2 ^ j * 2 ^ 23 \<le> a"
      by blast
    have "q * 2 ^ Suc j * 2 ^ 23 \<le> a"
    proof (cases "j = 0")
      case True
      with False show ?thesis by simp
    next
      case False
      with j(4) show ?thesis by simp
    qed
    with j False show ?thesis
      by (intro exI [of _ "Suc j"]) (simp add: mult_ac)
  qed
qed



lemma ulp32_form:
  "\<exists>j\<le>253. ulp32 a = FLT_TRUE_MIN * 2 ^ j \<and> (j < 253 \<longrightarrow> a < FLT_TRUE_MIN * 2 ^ j * 2 ^ 24)
            \<and> (0 < j \<longrightarrow> FLT_TRUE_MIN * 2 ^ j * 2 ^ 23 \<le> a)"
  unfolding ulp32_def by (rule ulp_search_form) (simp add: FLT_TRUE_MIN_def)

lemma ulp32_pos: "0 < ulp32 a"
  using ulp32_form [of a] by (auto simp: FLT_TRUE_MIN_def)

lemma pow2_less_D: "(2::real) ^ a < 2 ^ b \<Longrightarrow> a < b"
  by simp

lemma round32_exact:
  assumes x: "x = of_int m * FLT_TRUE_MIN * 2 ^ e" and m: "\<bar>m\<bar> < 2 ^ 24" and e: "e \<le> 253"
  shows "round32 x = x"
proof -
  have q0: "0 < FLT_TRUE_MIN" by (simp add: FLT_TRUE_MIN_def)
  from ulp32_form [of "\<bar>x\<bar>"] obtain j where "j \<le> 253 \<and> ulp32 \<bar>x\<bar> = FLT_TRUE_MIN * 2 ^ j \<and>
    (j < 253 \<longrightarrow> \<bar>x\<bar> < FLT_TRUE_MIN * 2 ^ j * 2 ^ 24) \<and>
    (0 < j \<longrightarrow> FLT_TRUE_MIN * 2 ^ j * 2 ^ 23 \<le> \<bar>x\<bar>)" ..
  then have j: "j \<le> 253" "ulp32 \<bar>x\<bar> = FLT_TRUE_MIN * 2 ^ j"
    "0 < j \<longrightarrow> FLT_TRUE_MIN * 2 ^ j * 2 ^ 23 \<le> \<bar>x\<bar>"
    by simp_all
  have ax: "\<bar>x\<bar> = of_int \<bar>m\<bar> * FLT_TRUE_MIN * 2 ^ e"
    using q0 by (simp add: x abs_mult)
  have je: "j \<le> e"
  proof (rule ccontr)
    assume "\<not> j \<le> e"
    then have ej: "e < j" by simp
    with j(3) have "FLT_TRUE_MIN * 2 ^ j * 2 ^ 23 \<le> of_int \<bar>m\<bar> * FLT_TRUE_MIN * 2 ^ e" by (simp add: ax)
    moreover have "(of_int \<bar>m\<bar> :: real) < 2 ^ 24" using m by (metis of_int_less_numeral_power_cancel_iff)
    then have "of_int \<bar>m\<bar> * FLT_TRUE_MIN * 2 ^ e < 2 ^ 24 * FLT_TRUE_MIN * 2 ^ e"
      using q0 by simp
    ultimately have "FLT_TRUE_MIN * 2 ^ j * 2 ^ 23 < 2 ^ 24 * FLT_TRUE_MIN * 2 ^ e" by linarith
    then have "(2::real) ^ (j + 23) < 2 ^ (24 + e)"
      using q0 by (simp add: power_add mult_ac)
    then have "j + 23 < 24 + e" by (rule pow2_less_D)
    with ej show False by simp
  qed
  then obtain d where d: "e = j + d" using le_Suc_ex by blast
  have "x / (FLT_TRUE_MIN * 2 ^ j) = of_int (m * 2 ^ d)"
    using q0 by (simp add: x d power_add)
  then have "x / ulp32 \<bar>x\<bar> = of_int (m * 2 ^ d)"
    by (simp only: j(2))
  then have "round_half_even (x / ulp32 \<bar>x\<bar>) = m * 2 ^ d"
    by (simp only: rhe_of_int)
  then have "round32 x = of_int (m * 2 ^ d) * (FLT_TRUE_MIN * 2 ^ j)"
    by (simp only: round32_def j(2))
  also have "\<dots> = x" by (simp add: x d power_add)
  finally show ?thesis .
qed

lemma round32_0: "round32 0 = 0"
  by (simp add: round32_def round_half_even_def)

lemma round32_minus: "round32 (- x) = - round32 x"
  by (simp add: round32_def rhe_minus)

lemma round32_mono_nonneg:
  assumes "0 \<le> x" and "x \<le> y"
  shows "round32 x \<le> round32 y"
proof -
  have q0: "0 < FLT_TRUE_MIN" by (simp add: FLT_TRUE_MIN_def)
  from assms have ax: "\<bar>x\<bar> = x" and ay: "\<bar>y\<bar> = y" by simp_all
  from ulp32_form [of x] obtain jx where "jx \<le> 253 \<and> ulp32 x = FLT_TRUE_MIN * 2 ^ jx \<and>
    (jx < 253 \<longrightarrow> x < FLT_TRUE_MIN * 2 ^ jx * 2 ^ 24) \<and> (0 < jx \<longrightarrow> FLT_TRUE_MIN * 2 ^ jx * 2 ^ 23 \<le> x)" ..
  then have jx: "jx \<le> 253" "ulp32 x = FLT_TRUE_MIN * 2 ^ jx"
    "jx < 253 \<longrightarrow> x < FLT_TRUE_MIN * 2 ^ jx * 2 ^ 24" "0 < jx \<longrightarrow> FLT_TRUE_MIN * 2 ^ jx * 2 ^ 23 \<le> x"
    by simp_all
  from ulp32_form [of y] obtain jy where "jy \<le> 253 \<and> ulp32 y = FLT_TRUE_MIN * 2 ^ jy \<and>
    (jy < 253 \<longrightarrow> y < FLT_TRUE_MIN * 2 ^ jy * 2 ^ 24) \<and> (0 < jy \<longrightarrow> FLT_TRUE_MIN * 2 ^ jy * 2 ^ 23 \<le> y)" ..
  then have jy: "jy \<le> 253" "ulp32 y = FLT_TRUE_MIN * 2 ^ jy"
    "jy < 253 \<longrightarrow> y < FLT_TRUE_MIN * 2 ^ jy * 2 ^ 24" "0 < jy \<longrightarrow> FLT_TRUE_MIN * 2 ^ jy * 2 ^ 23 \<le> y"
    by simp_all
  have le: "jx \<le> jy"
  proof (rule ccontr)
    assume "\<not> jx \<le> jy"
    then have lt: "jy < jx" by simp
    with jx(1) jy(3) have "y < FLT_TRUE_MIN * 2 ^ jy * 2 ^ 24" by simp
    moreover from lt jx(4) have "FLT_TRUE_MIN * 2 ^ jx * 2 ^ 23 \<le> x" by simp
    ultimately have "FLT_TRUE_MIN * 2 ^ jx * 2 ^ 23 < FLT_TRUE_MIN * 2 ^ jy * 2 ^ 24" using assms by linarith
    then have "(2::real) ^ (jx + 23) < 2 ^ (jy + 24)"
      using q0 by (simp add: power_add mult_ac)
    then have "jx + 23 < jy + 24" by (rule pow2_less_D)
    with lt show False by simp
  qed
  show ?thesis
  proof (cases "jx = jy")
    case True
    have pos: "0 < FLT_TRUE_MIN * 2 ^ jy" using q0 by simp
    have "x / (FLT_TRUE_MIN * 2 ^ jy) \<le> y / (FLT_TRUE_MIN * 2 ^ jy)"
      using assms pos by (simp add: divide_right_mono)
    then have "round_half_even (x / (FLT_TRUE_MIN * 2 ^ jy)) \<le> round_half_even (y / (FLT_TRUE_MIN * 2 ^ jy))"
      by (rule rhe_mono)
    then have "(of_int (round_half_even (x / (FLT_TRUE_MIN * 2 ^ jy))) :: real)
        \<le> of_int (round_half_even (y / (FLT_TRUE_MIN * 2 ^ jy)))" by simp
    then show ?thesis
      unfolding round32_def ax ay jx(2) jy(2) True
      using pos by (simp add: mult_right_mono)
  next
    case False
    with le have lt: "jx < jy" by simp
    have px: "0 < FLT_TRUE_MIN * 2 ^ jx" and py: "0 < FLT_TRUE_MIN * 2 ^ jy" using q0 by simp_all
    from lt jy(1) jx(3) have "x < FLT_TRUE_MIN * 2 ^ jx * 2 ^ 24" by simp
    then have "x / (FLT_TRUE_MIN * 2 ^ jx) \<le> of_int (2 ^ 24)"
      using px by (simp add: pos_divide_le_eq mult_ac)
    then have "round_half_even (x / (FLT_TRUE_MIN * 2 ^ jx)) \<le> round_half_even (of_int (2 ^ 24))"
      by (rule rhe_mono)
    then have "round_half_even (x / (FLT_TRUE_MIN * 2 ^ jx)) \<le> 2 ^ 24"
      by (simp only: rhe_of_int)
    then have "(of_int (round_half_even (x / (FLT_TRUE_MIN * 2 ^ jx))) :: real) \<le> 2 ^ 24"
      by (metis of_int_le_numeral_power_cancel_iff)
    then have ux: "round32 x \<le> 2 ^ 24 * (FLT_TRUE_MIN * 2 ^ jx)"
      unfolding round32_def ax jx(2) using px by (simp add: mult_right_mono)
    from lt jy(4) have "FLT_TRUE_MIN * 2 ^ jy * 2 ^ 23 \<le> y" by simp
    then have "of_int (2 ^ 23) \<le> y / (FLT_TRUE_MIN * 2 ^ jy)"
      using py by (simp add: pos_le_divide_eq mult_ac)
    then have "round_half_even (of_int (2 ^ 23)) \<le> round_half_even (y / (FLT_TRUE_MIN * 2 ^ jy))"
      by (rule rhe_mono)
    then have "2 ^ 23 \<le> round_half_even (y / (FLT_TRUE_MIN * 2 ^ jy))"
      by (simp only: rhe_of_int)
    then have "(2 ^ 23 :: real) \<le> of_int (round_half_even (y / (FLT_TRUE_MIN * 2 ^ jy)))"
      by (metis numeral_power_le_of_int_cancel_iff)
    then have uy: "2 ^ 23 * (FLT_TRUE_MIN * 2 ^ jy) \<le> round32 y"
      unfolding round32_def ay jy(2) using py by (simp add: mult_right_mono)
    from lt obtain d where d: "jy = Suc (jx + d)" using less_imp_Suc_add by blast
    have "(2::real) ^ 24 * (FLT_TRUE_MIN * 2 ^ jx) \<le> 2 ^ 23 * (FLT_TRUE_MIN * 2 ^ jy)"
      using q0 by (simp add: d power_add)
    with ux uy show ?thesis by linarith
  qed
qed

lemma round32_nonneg: "0 \<le> x \<Longrightarrow> 0 \<le> round32 x"
  using round32_mono_nonneg [of 0 x] by (simp add: round32_0)

lemma round32_mono:
  assumes "x \<le> y"
  shows "round32 x \<le> round32 y"
proof (cases "0 \<le> x")
  case True
  then show ?thesis using assms by (rule round32_mono_nonneg)
next
  case nx: False
  show ?thesis
  proof (cases "0 \<le> y")
    case True
    from nx have "0 \<le> round32 (- x)" by (intro round32_nonneg) simp
    then have "round32 x \<le> 0" by (simp add: round32_minus)
    with round32_nonneg [OF True] show ?thesis by linarith
  next
    case False
    with assms have "round32 (- y) \<le> round32 (- x)"
      by (intro round32_mono_nonneg) simp_all
    then show ?thesis by (simp add: round32_minus)
  qed
qed



lemma flt_round_not_NaN: "flt_round x \<noteq> NaN"
  by (simp add: flt_round_def Let_def)

lemma flt_round_exact:
  assumes x: "x = of_int m * FLT_TRUE_MIN * 2 ^ e" and m: "\<bar>m\<bar> < 2 ^ 24" and e: "e \<le> 253"
  shows "flt_round x = Fin x"
proof -
  have r: "round32 x = x" using assms by (rule round32_exact)
  have q0: "0 < FLT_TRUE_MIN" by (simp add: FLT_TRUE_MIN_def)
  from m have "\<bar>m\<bar> \<le> 2 ^ 24 - 1" by simp
  then have "(of_int \<bar>m\<bar> :: real) \<le> of_int (2 ^ 24 - 1)" by (simp only: of_int_le_iff)
  then have m': "(of_int \<bar>m\<bar> :: real) \<le> 2 ^ 24 - 1" by simp
  have "(2::real) ^ e \<le> 2 ^ 253" using e by (intro power_increasing) simp_all
  then have "FLT_TRUE_MIN * 2 ^ e \<le> FLT_TRUE_MIN * 2 ^ 253" using q0 by simp
  also have "FLT_TRUE_MIN * 2 ^ 253 = 2 ^ 104" by (simp add: FLT_TRUE_MIN_def)
  finally have qe: "FLT_TRUE_MIN * 2 ^ e \<le> 2 ^ 104" .
  have "\<bar>x\<bar> = of_int \<bar>m\<bar> * (FLT_TRUE_MIN * 2 ^ e)" using q0 by (simp add: x abs_mult)
  also have "\<dots> \<le> (2 ^ 24 - 1) * 2 ^ 104"
    using m' qe q0 by (intro mult_mono) simp_all
  finally have "\<bar>x\<bar> \<le> FLT_MAX" by (simp add: FLT_MAX_def)
  then have "\<not> FLT_MAX < x" and "\<not> x < - FLT_MAX" by linarith+
  then show ?thesis by (simp add: flt_round_def r)
qed

lemma flt_round_of_int:
  assumes "\<bar>m\<bar> < 2 ^ 24"
  shows "flt_round (of_int m) = Fin (of_int m)"
proof (rule flt_round_exact [where m = m and e = 149])
  show "of_int m = of_int m * FLT_TRUE_MIN * 2 ^ 149" by (simp add: FLT_TRUE_MIN_def)
qed (use assms in simp_all)

lemma flt_round_0 [simp]: "flt_round 0 = Fin 0"
  using flt_round_of_int [of 0] by simp

lemma flt_round_1 [simp]: "flt_round 1 = Fin 1"
  using flt_round_of_int [of 1] by simp

lemma flt_round_numeral:
  "numeral n < (2 ^ 24 :: int) \<Longrightarrow> flt_round (numeral n) = Fin (numeral n)"
  using flt_round_of_int [of "numeral n"] by simp

lemma flt_round_neg_numeral:
  "numeral n < (2 ^ 24 :: int) \<Longrightarrow> flt_round (- numeral n) = Fin (- numeral n)"
  using flt_round_of_int [of "- numeral n"] by simp

lemma flt_round_mono:
  assumes "x \<le> y"
  shows "fle (flt_round x) (flt_round y)"
  using round32_mono [OF assms]
  by (auto simp: flt_round_def fle_def Let_def FLT_MAX_def)

lemma flt_round_nonneg:
  assumes "0 \<le> x"
  shows "flt_round x = PInf \<or> (\<exists>r\<ge>0. flt_round x = Fin r)"
  using round32_nonneg [OF assms]
  by (auto simp: flt_round_def Let_def FLT_MAX_def)

lemma flt_round_FLT_MAX: "flt_round FLT_MAX = Fin FLT_MAX"
proof (rule flt_round_exact [where m = "2 ^ 24 - 1" and e = 253])
  show "FLT_MAX = of_int (2 ^ 24 - 1) * FLT_TRUE_MIN * 2 ^ 253"
    by (simp add: FLT_MAX_def FLT_TRUE_MIN_def)
qed simp_all

lemma ulp32_top: "2 ^ 127 \<le> a \<Longrightarrow> ulp32 a = 2 ^ 104"
proof -
  assume a: "2 ^ 127 \<le> a"
  from ulp32_form [of a] obtain j where "j \<le> 253 \<and> ulp32 a = FLT_TRUE_MIN * 2 ^ j \<and>
    (j < 253 \<longrightarrow> a < FLT_TRUE_MIN * 2 ^ j * 2 ^ 24) \<and>
    (0 < j \<longrightarrow> FLT_TRUE_MIN * 2 ^ j * 2 ^ 23 \<le> a)" ..
  then have j: "j \<le> 253" "ulp32 a = FLT_TRUE_MIN * 2 ^ j"
    "j < 253 \<longrightarrow> a < FLT_TRUE_MIN * 2 ^ j * 2 ^ 24" by simp_all
  have "j = 253"
  proof (rule ccontr)
    assume "j \<noteq> 253"
    with j(1) have lt: "j < 253" by simp
    with j(3) have "a < FLT_TRUE_MIN * 2 ^ j * 2 ^ 24" by simp
    also have "(2::real) ^ j \<le> 2 ^ 252" using lt by (intro power_increasing) simp_all
    then have "FLT_TRUE_MIN * 2 ^ j * 2 ^ 24 \<le> FLT_TRUE_MIN * 2 ^ 252 * 2 ^ 24"
      by (simp add: FLT_TRUE_MIN_def)
    also have "\<dots> = 2 ^ 127" by (simp add: FLT_TRUE_MIN_def)
    finally show False using a by simp
  qed
  with j(2) show ?thesis by (simp add: FLT_TRUE_MIN_def)
qed

lemma flt_round_span: "flt_round (FLT_MIN - FLT_MAX) = Fin (- FLT_MAX)"
proof -
  have u: "ulp32 \<bar>FLT_MIN - FLT_MAX\<bar> = 2 ^ 104"
    by (rule ulp32_top) (simp add: FLT_MIN_def FLT_MAX_def)
  have "round_half_even ((FLT_MIN - FLT_MAX) / 2 ^ 104) = - (2 ^ 24 - 1)"
    by (simp add: round_half_even_def FLT_MIN_def FLT_MAX_def)
  then have "round32 (FLT_MIN - FLT_MAX) = of_int (- (2 ^ 24 - 1)) * 2 ^ 104"
    by (simp only: round32_def u)
  also have "\<dots> = - FLT_MAX" by (simp add: FLT_MAX_def)
  finally have "round32 (FLT_MIN - FLT_MAX) = - FLT_MAX" .
  moreover have "0 < FLT_MAX" by (simp add: FLT_MAX_def)
  ultimately show ?thesis by (simp add: flt_round_def Let_def)
qed

section \<open>Properties of the two passes\<close>

lemma read_undgraph_OkI:
  assumes "fopen_r e fn = Some content" and "fgets 64 content = Some (buf, fp)"
    and "scan_s 31 (c_str buf) = Some (''undgraph'', nc)"
    and "header_tags (c_str buf) (length (c_str buf)) 0 nc (default_tags graphdata0) = Ok g1"
    and "malloc_ok e (4 * count_lines fp 0)"
  shows "read_undgraph e fn =
    Ok (read_data fp (g1\<lparr>size_g := count_lines fp 0, data := replicate (count_lines fp 0) None\<rparr>),
        [Found_values (count_lines fp 0)])"
  using assms unfolding read_undgraph_def Let_def by simp

lemma read_undgraph_OkE:
  assumes ok: "read_undgraph e fn = Ok (g, out)"
  obtains content buf fp nc g1 where
    "fopen_r e fn = Some content" and "fgets 64 content = Some (buf, fp)"
    and "scan_s 31 (c_str buf) = Some (''undgraph'', nc)"
    and "header_tags (c_str buf) (length (c_str buf)) 0 nc (default_tags graphdata0) = Ok g1"
    and "malloc_ok e (4 * count_lines fp 0)"
    and "g = read_data fp (g1\<lparr>size_g := count_lines fp 0, data := replicate (count_lines fp 0) None\<rparr>)"
    and "out = [Found_values (count_lines fp 0)]"
proof -
  from ok obtain content where c: "fopen_r e fn = Some content"
    by (cases "fopen_r e fn") (simp_all add: read_undgraph_def)
  from ok c obtain buf fp where b: "fgets 64 content = Some (buf, fp)"
    by (cases "fgets 64 content") (auto simp: read_undgraph_def)
  from ok c b obtain tag nc where t: "scan_s 31 (c_str buf) = Some (tag, nc)"
    by (cases "scan_s 31 (c_str buf)") (auto simp: read_undgraph_def Let_def)
  from ok c b t have tag: "tag = ''undgraph''"
    by (cases "tag = ''undgraph''") (simp_all add: read_undgraph_def Let_def)
  let ?h = "header_tags (c_str buf) (length (c_str buf)) 0 nc (default_tags graphdata0)"
  from ok c b t tag obtain g1 where h: "?h = Ok g1"
    by (cases ?h) (auto simp: read_undgraph_def Let_def)
  from ok c b t tag h have m: "malloc_ok e (4 * count_lines fp 0)"
    by (cases "malloc_ok e (4 * count_lines fp 0)") (simp_all add: read_undgraph_def Let_def)
  from read_undgraph_OkI [OF c b t [unfolded tag] h m] ok
  have "g = read_data fp (g1\<lparr>size_g := count_lines fp 0, data := replicate (count_lines fp 0) None\<rparr>)"
    and "out = [Found_values (count_lines fp 0)]" by simp_all
  with c b t [unfolded tag] h m show thesis by (rule that)
qed

declare fill_data.simps [simp del] count_lines.simps [simp del] lines_of.simps [simp del]
  header_tags.simps [simp del] mesh_loop.simps [simp del]

lemma fill_data_frame:
  "size_g (fill_data fp i g) = size_g g \<and> length (data (fill_data fp i g)) = length (data g)
   \<and> msaa (fill_data fp i g) = msaa g \<and> save (fill_data fp i g) = save g
   \<and> line_width (fill_data fp i g) = line_width g \<and> frame_px (fill_data fp i g) = frame_px g"
proof (induction fp i g rule: fill_data.induct)
  case (1 fp i g)
  show ?case
  proof (cases "fgets 64 fp")
    case None
    then show ?thesis by (simp add: fill_data.simps [of fp])
  next
    case (Some p)
    obtain buf fp' where p: "p = (buf, fp')" by (cases p)
    show ?thesis
    proof (cases "i < size_g g")
      case True
      from "1.IH" [OF Some p [symmetric] True] Some p True show ?thesis
        by (simp add: fill_data.simps [of fp] store_sample_def Let_def)
    next
      case False
      with Some p show ?thesis by (simp add: fill_data.simps [of fp])
    qed
  qed
qed


lemma fill_data_rule:
  assumes stop: "\<And>fp i g. fgets 64 fp = None \<or> \<not> i < size_g g \<Longrightarrow> Q fp i g g"
    and step: "\<And>fp buf fp' i g r. fgets 64 fp = Some (buf, fp') \<Longrightarrow> i < size_g g \<Longrightarrow>
        Q fp' (Suc i) (store_sample g i (strtof (c_str buf))) r \<Longrightarrow> Q fp i g r"
  shows "Q fp i g (fill_data fp i g)"
proof (induction fp i g rule: fill_data.induct)
  case (1 fp i g)
  show ?case
  proof (cases "fgets 64 fp")
    case None
    then show ?thesis using stop [of fp i g] by (simp add: fill_data.simps [of fp])
  next
    case (Some p)
    obtain buf fp' where p: "p = (buf, fp')" by (cases p)
    show ?thesis
    proof (cases "i < size_g g")
      case True
      from "1.IH" [OF Some p [symmetric] True]
      have "Q fp i g (fill_data fp' (Suc i) (store_sample g i (strtof (c_str buf))))"
        using Some p True by (intro step [of fp buf fp']) simp_all
      with Some p True show ?thesis by (simp add: fill_data.simps [of fp])
    next
      case False
      with Some p show ?thesis using stop [of fp i g] by (simp add: fill_data.simps [of fp])
    qed
  qed
qed

lemma fle_refl: "a \<noteq> NaN \<Longrightarrow> fle a a"
  by (cases a) (simp_all add: fle_def)

lemma fle_trans: "fle a b \<Longrightarrow> fle b c \<Longrightarrow> fle a c"
  by (cases a; cases b; cases c) (simp_all add: fle_def)

lemma flt_imp_fle: "flt a b \<Longrightarrow> fle a b"
  by (cases a; cases b) (simp_all add: fle_def)

lemma flt_not_NaN: "flt a b \<Longrightarrow> a \<noteq> NaN \<and> b \<noteq> NaN"
  by (cases a; cases b) simp_all

lemma not_flt_fle: "\<not> flt a b \<Longrightarrow> a \<noteq> NaN \<Longrightarrow> b \<noteq> NaN \<Longrightarrow> fle b a"
  by (simp add: fle_def)

lemma store_sample_frame:
  "size_g (store_sample g i f) = size_g g \<and> data (store_sample g i f) = (data g)[i := Some f]
   \<and> msaa (store_sample g i f) = msaa g \<and> save (store_sample g i f) = save g
   \<and> line_width (store_sample g i f) = line_width g \<and> frame_px (store_sample g i f) = frame_px g"
  by (simp add: store_sample_def Let_def)

lemma store_sample_max:
  "max_value (store_sample g i f) = (if flt (max_value g) f then f else max_value g)"
  by (simp add: store_sample_def Let_def)

lemma store_sample_min:
  "min_value (store_sample g i f) = (if flt f (min_value g) then f else min_value g)"
  by (simp add: store_sample_def Let_def)

lemma store_sample_max_lower:
  "fle b (max_value g) \<Longrightarrow> fle b (max_value (store_sample g i f))"
  by (auto simp: store_sample_max intro: fle_trans flt_imp_fle)

lemma fill_data_max_lower:
  "fle b (max_value g) \<Longrightarrow> fle b (max_value (fill_data fp i g))"
proof -
  have "fle b (max_value g) \<longrightarrow> fle b (max_value (fill_data fp i g))"
    by (rule fill_data_rule [where Q = "\<lambda>fp i g r. fle b (max_value g) \<longrightarrow> fle b (max_value r)"])
       (simp_all add: store_sample_max_lower)
  then show "fle b (max_value g) \<Longrightarrow> fle b (max_value (fill_data fp i g))" by simp
qed

lemma store_sample_bounded:
  assumes "bounded g"
  shows "bounded (store_sample g i f)"
proof -
  let ?g = "store_sample g i f"
  from assms have mx: "max_value g \<noteq> NaN" and mn: "min_value g \<noteq> NaN"
    and old: "\<And>v. Some v \<in> set (data g) \<Longrightarrow> v \<noteq> NaN \<Longrightarrow> fle (min_value g) v \<and> fle v (max_value g)"
    by (auto simp: bounded_def)
  have mx': "max_value ?g \<noteq> NaN" using mx flt_not_NaN [of "max_value g" f]
    by (auto simp: store_sample_max)
  have mn': "min_value ?g \<noteq> NaN" using mn flt_not_NaN [of f "min_value g"]
    by (auto simp: store_sample_min)
  have up: "fle (max_value g) (max_value ?g)"
    using mx by (auto simp: store_sample_max intro: flt_imp_fle fle_refl)
  have down: "fle (min_value ?g) (min_value g)"
    using mn by (auto simp: store_sample_min intro: flt_imp_fle fle_refl)
  have new: "f \<noteq> NaN \<Longrightarrow> fle (min_value ?g) f \<and> fle f (max_value ?g)"
    using mx mn by (auto simp: store_sample_max store_sample_min intro: fle_refl not_flt_fle)
  have "fle (min_value ?g) v \<and> fle v (max_value ?g)" if v: "Some v \<in> set (data ?g)" "v \<noteq> NaN" for v
  proof -
    from v(1) have "Some v \<in> insert (Some f) (set (data g))"
      using set_update_subset_insert [of "data g" i "Some f"] by (auto simp: store_sample_frame)
    then show ?thesis
    proof
      assume "Some v = Some f"
      with new v(2) show ?thesis by simp
    next
      assume "Some v \<in> set (data g)"
      from old [OF this v(2)] up down show ?thesis by (blast intro: fle_trans)
    qed
  qed
  with mx' mn' show ?thesis by (simp add: bounded_def)
qed

lemma fill_data_bounded: "bounded g \<Longrightarrow> bounded (fill_data fp i g)"
proof -
  have "bounded g \<longrightarrow> bounded (fill_data fp i g)"
    by (rule fill_data_rule [where Q = "\<lambda>fp i g r. bounded g \<longrightarrow> bounded r"])
       (simp_all add: store_sample_bounded)
  then show "bounded g \<Longrightarrow> bounded (fill_data fp i g)" by simp
qed

lemma lines_of_None: "fgets 64 fp = None \<Longrightarrow> lines_of fp = []"
  by (simp add: lines_of.simps [of fp])

lemma lines_of_Some: "fgets 64 fp = Some (buf, fp') \<Longrightarrow> lines_of fp = c_str buf # lines_of fp'"
  by (simp add: lines_of.simps [of fp])

lemma count_lines_takeWhile:
  "count_lines fp n = n + length (takeWhile sample_line (lines_of fp))"
proof (induction fp n rule: count_lines.induct)
  case (1 fp n)
  show ?case
  proof (cases "fgets 64 fp")
    case None
    then show ?thesis by (simp add: count_lines.simps [of fp] lines_of_None)
  next
    case (Some p)
    obtain buf fp' where p: "p = (buf, fp')" by (cases p)
    show ?thesis
    proof (cases "sscanf_f (c_str buf)")
      case None
      with Some p show ?thesis
        by (simp add: count_lines.simps [of fp] lines_of_Some sample_line_def)
    next
      case (Some f)
      from "1.IH" [OF \<open>fgets 64 fp = Some p\<close> p [symmetric] Some]
      show ?thesis using \<open>fgets 64 fp = Some p\<close> p Some
        by (simp add: count_lines.simps [of fp] lines_of_Some sample_line_def)
    qed
  qed
qed

lemma fill_data_cells:
  "length (data g) = size_g g \<longrightarrow>
   (\<forall>k<size_g g. data (fill_data fp i g) ! k =
      (if i \<le> k \<and> k - i < length (lines_of fp) then Some (strtof (lines_of fp ! (k - i)))
       else data g ! k))"
proof (rule fill_data_rule [where Q = "\<lambda>fp i g r. length (data g) = size_g g \<longrightarrow>
   (\<forall>k<size_g g. data r ! k =
      (if i \<le> k \<and> k - i < length (lines_of fp) then Some (strtof (lines_of fp ! (k - i)))
       else data g ! k))"])
  fix fp i g
  assume "fgets 64 fp = None \<or> \<not> i < size_g g"
  then show "length (data g) = size_g g \<longrightarrow>
   (\<forall>k<size_g g. data g ! k =
      (if i \<le> k \<and> k - i < length (lines_of fp) then Some (strtof (lines_of fp ! (k - i)))
       else data g ! k))"
    by (auto simp: lines_of_None)
next
  fix fp buf fp' i g r
  let ?f = "strtof (c_str buf)"
  assume fg: "fgets 64 fp = Some (buf, fp')" and i: "i < size_g g"
    and IH: "length (data (store_sample g i ?f)) = size_g (store_sample g i ?f) \<longrightarrow>
      (\<forall>k<size_g (store_sample g i ?f). data r ! k =
        (if Suc i \<le> k \<and> k - Suc i < length (lines_of fp')
         then Some (strtof (lines_of fp' ! (k - Suc i)))
         else data (store_sample g i ?f) ! k))"
  show "length (data g) = size_g g \<longrightarrow>
   (\<forall>k<size_g g. data r ! k =
      (if i \<le> k \<and> k - i < length (lines_of fp) then Some (strtof (lines_of fp ! (k - i)))
       else data g ! k))"
  proof (intro impI allI)
    fix k
    assume len: "length (data g) = size_g g" and k: "k < size_g g"
    from IH len k have r: "data r ! k =
        (if Suc i \<le> k \<and> k - Suc i < length (lines_of fp')
         then Some (strtof (lines_of fp' ! (k - Suc i)))
         else (data g)[i := Some ?f] ! k)"
      by (simp add: store_sample_frame)
    have l: "lines_of fp = c_str buf # lines_of fp'" using fg by (rule lines_of_Some)
    consider "k < i" | "k = i" | "i < k" by linarith
    then show "data r ! k =
      (if i \<le> k \<and> k - i < length (lines_of fp) then Some (strtof (lines_of fp ! (k - i)))
       else data g ! k)"
    proof cases
      case 1
      with r show ?thesis by simp
    next
      case 2
      with r i len show ?thesis by (simp add: l)
    next
      case 3
      then obtain d where d: "k = Suc (i + d)" using less_imp_Suc_add by blast
      from r show ?thesis by (simp add: l d)
    qed
  qed
qed


lemma read_data_frame:
  "size_g (read_data fp g) = size_g g \<and> length (data (read_data fp g)) = length (data g)
   \<and> msaa (read_data fp g) = msaa g \<and> save (read_data fp g) = save g
   \<and> line_width (read_data fp g) = line_width g \<and> frame_px (read_data fp g) = frame_px g"
  by (simp add: read_data_def Let_def fill_data_frame)

lemma read_data_cells:
  assumes "n \<le> length (lines_of fp)"
  shows "data (read_data fp (g\<lparr>size_g := n, data := replicate n None\<rparr>)) =
    map (\<lambda>l. Some (strtof l)) (take n (lines_of fp))"
proof (rule nth_equalityI)
  let ?g = "g\<lparr>size_g := n, data := replicate n None, max_value := Fin FLT_MIN, min_value := Fin FLT_MAX\<rparr>"
  show "length (data (read_data fp (g\<lparr>size_g := n, data := replicate n None\<rparr>))) =
    length (map (\<lambda>l. Some (strtof l)) (take n (lines_of fp)))"
    using assms by (simp add: read_data_frame)
  fix k
  assume "k < length (data (read_data fp (g\<lparr>size_g := n, data := replicate n None\<rparr>)))"
  then have k: "k < n" by (simp add: read_data_frame)
  have "length (data ?g) = size_g ?g" by simp
  with fill_data_cells [of ?g fp 0] k
  have "data (fill_data fp 0 ?g) ! k = Some (strtof (lines_of fp ! k))"
    using assms by simp
  then show "data (read_data fp (g\<lparr>size_g := n, data := replicate n None\<rparr>)) ! k =
    map (\<lambda>l. Some (strtof l)) (take n (lines_of fp)) ! k"
    using k assms by (simp add: read_data_def Let_def)
qed

lemma read_data_bounded:
  "bounded (read_data fp (g\<lparr>size_g := n, data := replicate n None\<rparr>))"
proof -
  let ?g = "g\<lparr>size_g := n, data := replicate n None, max_value := Fin FLT_MIN, min_value := Fin FLT_MAX\<rparr>"
  have "bounded ?g" by (simp add: bounded_def)
  then have "bounded (fill_data fp 0 ?g)" by (rule fill_data_bounded)
  then show ?thesis by (simp add: read_data_def Let_def bounded_def)
qed

lemma sscanf_f_strtof: "sscanf_f l = Some v \<Longrightarrow> strtof l = v"
  by (auto simp: sscanf_f_def strtof_def split: option.splits prod.splits if_splits)

lemma mesh_loop_done: "\<not> i < size_g g \<Longrightarrow> mesh_loop g i mesh out = Ok (mesh, out)"
  by (simp add: mesh_loop.simps [of g i])

lemma store_sample_min_upper:
  "fle (min_value g) b \<Longrightarrow> fle (min_value (store_sample g i f)) b"
  by (auto simp: store_sample_min intro: fle_trans flt_imp_fle)

lemma fill_data_min_upper:
  "fle (min_value g) b \<Longrightarrow> fle (min_value (fill_data fp i g)) b"
proof -
  have "fle (min_value g) b \<longrightarrow> fle (min_value (fill_data fp i g)) b"
    by (rule fill_data_rule [where Q = "\<lambda>fp i g r. fle (min_value g) b \<longrightarrow> fle (min_value r) b"])
       (simp_all add: store_sample_min_upper)
  then show "fle (min_value g) b \<Longrightarrow> fle (min_value (fill_data fp i g)) b" by simp
qed

lemma flt_of_nat_finite:
  assumes "0 < n" and "n < 2 ^ 64"
  shows "\<exists>s. flt_round (real n) = Fin s \<and> 1 \<le> s \<and> s \<le> 2 ^ 64"
proof -
  have one: "round32 1 = 1"
    using round32_exact [where x = 1 and m = 1 and e = 149] by (simp add: FLT_TRUE_MIN_def)
  have big: "round32 (2 ^ 64) = 2 ^ 64"
    using round32_exact [where x = "2 ^ 64" and m = 1 and e = 213] by (simp add: FLT_TRUE_MIN_def)
  from assms have "1 \<le> real n" by simp
  then have "round32 1 \<le> round32 (real n)" by (rule round32_mono)
  then have lo: "1 \<le> round32 (real n)" by (simp only: one)
  from assms have "real n \<le> 2 ^ 64"
    by (metis less_imp_le of_nat_le_iff of_nat_numeral of_nat_power)
  then have "round32 (real n) \<le> round32 (2 ^ 64)" by (rule round32_mono)
  then have hi: "round32 (real n) \<le> 2 ^ 64" by (simp only: big)
  have "(2::real) ^ 64 \<le> FLT_MAX" by (simp add: FLT_MAX_def)
  with lo hi have "flt_round (real n) = Fin (round32 (real n))"
    by (simp add: flt_round_def Let_def)
  with lo hi show ?thesis by simp
qed



lemma read_tag_not_header_message: "read_tag tag g \<noteq> Undefined Header_message"
  by (simp add: read_tag_def split: option.splits)

lemma header_tags_not_header_message:
  "header_tags line i lp nc g \<noteq> Undefined Header_message"
proof (induction line i lp nc g rule: header_tags.induct)
  case (1 line i lp nc g)
  show ?case
  proof (cases "lp < i")
    case False
    then show ?thesis by (simp add: header_tags.simps [of line i lp nc g])
  next
    case True
    show ?thesis
    proof (cases "scan_s 31 (drop (lp + nc) line)")
      case None
      with True show ?thesis by (simp add: header_tags.simps [of line i lp nc g])
    next
      case (Some p)
      obtain tag nc' where p: "p = (tag, nc')" by (cases p)
      show ?thesis
      proof (cases "read_tag tag g")
        case (Ok g')
        from "1.IH" [OF True Some p [symmetric] Ok] True Some p Ok show ?thesis
          by (simp add: header_tags.simps [of line i lp nc g])
      next
        case IoError
        with True Some p show ?thesis by (simp add: header_tags.simps [of line i lp nc g])
      next
        case Abort
        with True Some p show ?thesis by (simp add: header_tags.simps [of line i lp nc g])
      next
        case (Undefined u)
        with read_tag_not_header_message [of tag g] have "u \<noteq> Header_message" by auto
        with True Some p Undefined show ?thesis
          by (simp add: header_tags.simps [of line i lp nc g])
      qed
    qed
  qed
qed

lemma scan_s_first_token:
  assumes "dropWhile isspace s \<noteq> []"
  shows "\<exists>n. scan_s 31 s = Some (take 31 (first_token s), n)"
  using assms by (simp add: scan_s_def first_token_def Let_def)

lemma take_31_undgraph: "take 31 t = ''undgraph'' \<longleftrightarrow> t = ''undgraph''"
proof
  assume a: "take 31 t = ''undgraph''"
  then have "length (take 31 t) = 8" by simp
  then have "length t = 8" by (simp add: min_def split: if_splits)
  with a show "t = ''undgraph''" by simp
qed simp

lemma fgets_buf_first_line:
  "fgets_buf n s = (buf, r) \<Longrightarrow>
     takeWhile (\<lambda>c. c \<noteq> CHR 0x0A) buf = take n (takeWhile (\<lambda>c. c \<noteq> CHR 0x0A) s)"
  by (induction n s arbitrary: buf r rule: fgets_buf.induct)
     (auto split: if_splits prod.splits)

section \<open>Running the model on a given file\<close>

lemma fgets_buf_numeral:
  "fgets_buf (numeral k) (c # fp) =
     (if c = CHR 0x0A then ([c], fp)
      else (case fgets_buf (pred_numeral k) fp of (buf, fp') \<Rightarrow> (c # buf, fp')))"
  "fgets_buf (numeral k) [] = ([], [])"
  by (simp_all add: numeral_eq_Suc)

lemmas scan_defs = fgets_def fgets_buf_numeral c_str_def scan_s_def isspace_def isdigit_def
  isxdigit_def isalpha_def tolower_def xdigit_val_def digits_val_def scan_lit_def
  starts_with_def scan_d_def exp_part_def mantissa_def nan_dangling_def float_unsigned_def
  float_subject_def strtof_def sscanf_f_def Let_def flt_round_numeral flt_round_neg_numeral

lemmas run_defs = read_undgraph_def file_env_def header_tags.simps count_lines.simps
  fill_data.simps read_data_def store_sample_def default_tags_def graphdata0_def
  read_tag_def store_int_def store_float_def INT_MAX_def INT_MIN_def
  fsub_def flt_of_nat_def flt_of_int_def

lemma read_two_samples:
  "read_undgraph (file_env ''undgraph\<newline>5\<newline>-5\<newline>'') ''undgraph.txt'' =
     Ok (\<lparr>msaa = 0, save = 0, line_width = Fin 1, frame_px = Fin 0, max_value = Fin 5,
          min_value = Fin (- 5), tick_size = Fin 5, size_g = 2,
          data = [Some (Fin 5), Some (Fin (- 5))]\<rparr>, [Found_values 2])"
  by (simp add: run_defs scan_defs FLT_MIN_def FLT_MAX_def)

lemma flt_round_FLT_MIN_plus_5: "flt_round (FLT_MIN + 5) = Fin 5"
  by (simp add: flt_round_def round32_def ulp32_def FLT_TRUE_MIN_def round_half_even_def
      FLT_MAX_def FLT_MIN_def eval_nat_numeral)

lemma flt_round_5_2: "flt_round (5 / 2) = Fin (5 / 2)"
  by (rule flt_round_exact [where m = 5 and e = 148]) (simp_all add: FLT_TRUE_MIN_def)

lemma read_negative_samples:
  "read_undgraph (file_env ''undgraph\<newline>-5\<newline>-3\<newline>'') ''undgraph.txt'' =
     Ok (\<lparr>msaa = 0, save = 0, line_width = Fin 1, frame_px = Fin 0, max_value = Fin FLT_MIN,
          min_value = Fin (- 5), tick_size = Fin (5 / 2), size_g = 2,
          data = [Some (Fin (- 5)), Some (Fin (- 3))]\<rparr>, [Found_values 2])"
proof -
  have c: "\<not> FLT_MIN < - 5" "\<not> FLT_MIN < - 3" "- 5 < FLT_MAX" "\<not> - 3 < (- 5 :: real)"
    by (simp_all add: FLT_MIN_def FLT_MAX_def)
  show ?thesis
    by (simp add: run_defs scan_defs c flt_round_FLT_MIN_plus_5 flt_round_5_2)
qed

lemma read_nan_sample:
  "read_undgraph (file_env ''undgraph\<newline>nan\<newline>'') ''undgraph.txt'' =
     Ok (\<lparr>msaa = 0, save = 0, line_width = Fin 1, frame_px = Fin 0, max_value = Fin FLT_MIN,
          min_value = Fin FLT_MAX, tick_size = Fin FLT_MAX, size_g = 1,
          data = [Some NaN]\<rparr>, [Found_values 1])"
proof -
  have c: "0 < FLT_MAX" by (simp add: FLT_MAX_def)
  show ?thesis
    using c by (simp add: run_defs scan_defs flt_round_span flt_round_FLT_MAX)
qed

lemma read_header_only:
  "read_undgraph (file_env ''undgraph\<newline>'') ''undgraph.txt'' =
     Ok (\<lparr>msaa = 0, save = 0, line_width = Fin 1, frame_px = Fin 0, max_value = Fin FLT_MIN,
          min_value = Fin FLT_MAX, tick_size = PInf, size_g = 0, data = []\<rparr>, [Found_values 0])"
proof -
  have c: "0 < FLT_MAX" by (simp add: FLT_MAX_def)
  show ?thesis
    using c by (simp add: run_defs scan_defs flt_round_span)
qed

lemma read_unparsable_line:
  "read_undgraph (file_env ''undgraph\<newline>1\<newline>abc\<newline>2\<newline>'') ''undgraph.txt'' =
     Ok (\<lparr>msaa = 0, save = 0, line_width = Fin 1, frame_px = Fin 0, max_value = Fin 1,
          min_value = Fin 1, tick_size = Fin 0, size_g = 1, data = [Some (Fin 1)]\<rparr>,
         [Found_values 1])"
  by (simp add: run_defs scan_defs FLT_MIN_def FLT_MAX_def)

lemma lines_two: "lines_of ''5\<newline>-5\<newline>'' = [''5\<newline>'', ''-5\<newline>'']"
  by (simp add: lines_of.simps scan_defs)

lemma lines_unparsable:
  "lines_of ''1\<newline>abc\<newline>2\<newline>'' = [''1\<newline>'', ''abc\<newline>'', ''2\<newline>'']"
  by (simp add: lines_of.simps scan_defs)

lemma flt_round_3_2: "flt_round (3 / 2) = Fin (3 / 2)"
  by (rule flt_round_exact [where m = 3 and e = 148]) (simp_all add: FLT_TRUE_MIN_def)

lemma read_trailing_garbage:
  "read_undgraph (file_env ''undgraph\<newline>1.5abc\<newline>xyz\<newline>2\<newline>'') ''undgraph.txt'' =
     Ok (\<lparr>msaa = 0, save = 0, line_width = Fin 1, frame_px = Fin 0, max_value = Fin (3 / 2),
          min_value = Fin (3 / 2), tick_size = Fin 0, size_g = 1, data = [Some (Fin (3 / 2))]\<rparr>,
         [Found_values 1])"
  by (simp add: run_defs scan_defs FLT_MIN_def FLT_MAX_def flt_round_3_2)

lemma lines_trailing_garbage:
  "lines_of ''1.5abc\<newline>xyz\<newline>2\<newline>'' = [''1.5abc\<newline>'', ''xyz\<newline>'', ''2\<newline>'']"
  by (simp add: lines_of.simps scan_defs)


lemmas mesh_defs = load_mesh_def build_mesh_def mesh_loop.simps vertex_x_def vertex_y_def
  vertex_warnings_def isinf_def isnan_def WIDTH_def HEIGHT_def fsub_def flt_of_nat_def
  flt_of_int_def file_env_def



lemma read_malformed_tags:
  "read_undgraph (file_env ''undgraph msaax lw:abc save\<newline>1\<newline>'') ''undgraph.txt'' =
     Ok (\<lparr>msaa = 0, save = 0, line_width = Fin 1, frame_px = Fin 0, max_value = Fin 1,
          min_value = Fin 1, tick_size = Fin 0, size_g = 1, data = [Some (Fin 1)]\<rparr>,
         [Found_values 1])"
  by (simp add: run_defs scan_defs FLT_MIN_def FLT_MAX_def)

lemma read_unknown_tag:
  "read_undgraph (file_env ''undgraph width:3\<newline>1\<newline>'') ''undgraph.txt'' =
     Undefined (Tag_message ''width:3'')"
  by (simp add: run_defs scan_defs)

section \<open>Properties of the mesh loop\<close>

text \<open>
  The loop over the samples writes every cell of the mesh, in order, and never reads a
  cell of \<^verbatim>\<open>data\<close> that the second pass left unwritten.
\<close>

lemma mesh_loop_step:
  "i < size_g g \<Longrightarrow> i < length (data g) \<Longrightarrow> data g ! i = Some v \<Longrightarrow>
   mesh_loop g i mesh out =
     mesh_loop g (Suc i) (mesh[i := Some (vertex_x g i, vertex_y g v)])
       (out @ vertex_warnings i (vertex_x g i) (vertex_y g v))"
  by (simp add: mesh_loop.simps [of g i] Let_def)

lemma mesh_loop_Ok:
  "mesh_loop g i mesh out = Ok (mesh', out') \<Longrightarrow> length mesh = size_g g \<Longrightarrow>
   length mesh' = size_g g \<and>
   (\<forall>k<size_g g. if i \<le> k
      then \<exists>v. k < length (data g) \<and> data g ! k = Some v \<and>
             mesh' ! k = Some (vertex_x g k, vertex_y g v)
      else mesh' ! k = mesh ! k)"
proof (induction g i mesh out rule: mesh_loop.induct)
  case (1 g i mesh out)
  show ?case
  proof (cases "i < size_g g")
    case False
    with "1.prems" show ?thesis by (simp add: mesh_loop_done)
  next
    case True
    from True "1.prems"(1) have len: "i < length (data g)"
      by (cases "i < length (data g)") (simp_all add: mesh_loop.simps [of g i])
    from True len "1.prems"(1) obtain v where v: "data g ! i = Some v"
      by (cases "data g ! i") (simp_all add: mesh_loop.simps [of g i])
    let ?m = "mesh[i := Some (vertex_x g i, vertex_y g v)]"
    let ?o = "out @ vertex_warnings i (vertex_x g i) (vertex_y g v)"
    from "1.prems"(1) have run: "mesh_loop g (Suc i) ?m ?o = Ok (mesh', out')"
      by (simp only: mesh_loop_step [OF True len v])
    have lm: "length ?m = size_g g" using "1.prems"(2) by simp
    note IH0 = "1.IH" [OF True len v refl refl run lm]
    note IH = IH0 [THEN conjunct1] IH0 [THEN conjunct2]
    have cell: "if i \<le> k
      then \<exists>v. k < length (data g) \<and> data g ! k = Some v \<and>
             mesh' ! k = Some (vertex_x g k, vertex_y g v)
      else mesh' ! k = mesh ! k" if k: "k < size_g g" for k
    proof -
      consider "k < i" | "k = i" | "Suc i \<le> k" by linarith
      then show ?thesis
      proof cases
        case 1
        from IH(2) [rule_format, OF k] 1 show ?thesis by simp
      next
        case 2
        from IH(2) [rule_format, OF k] 2 have "mesh' ! i = ?m ! i" by simp
        with 2 len v True "1.prems"(2) show ?thesis by simp
      next
        case 3
        from IH(2) [rule_format, OF k] 3 show ?thesis by simp
      qed
    qed
    have "\<forall>k<size_g g. if i \<le> k
      then \<exists>v. k < length (data g) \<and> data g ! k = Some v \<and>
             mesh' ! k = Some (vertex_x g k, vertex_y g v)
      else mesh' ! k = mesh ! k"
    proof (intro allI impI)
      fix k
      assume "k < size_g g"
      then show "if i \<le> k
        then \<exists>v. k < length (data g) \<and> data g ! k = Some v \<and>
               mesh' ! k = Some (vertex_x g k, vertex_y g v)
        else mesh' ! k = mesh ! k" by (rule cell)
    qed
    with IH(1) show ?thesis by (rule conjI)
  qed
qed

lemma mesh_loop_total:
  assumes "length (data g) = size_g g" and "\<forall>k<size_g g. data g ! k \<noteq> None"
  shows "\<exists>mesh' out'. mesh_loop g i mesh out = Ok (mesh', out')"
proof (induction "size_g g - i" arbitrary: i mesh out)
  case 0
  then have "\<not> i < size_g g" by simp
  then show ?case by (simp add: mesh_loop_done)
next
  case (Suc n)
  then have i: "i < size_g g" by simp
  with assms obtain v where v: "data g ! i = Some v" by auto
  from i assms(1) have len: "i < length (data g)" by simp
  from Suc(2) have "n = size_g g - Suc i" by simp
  from Suc(1) [OF this] show ?case by (simp only: mesh_loop_step [OF i len v])
qed

lemma build_mesh_Ok:
  assumes "build_mesh e g = Ok (mesh, out)" and "k < size_g g"
  shows "length mesh = size_g g \<and>
    (\<exists>v. k < length (data g) \<and> data g ! k = Some v \<and>
       mesh ! k = Some (vertex_x g k, vertex_y g v))"
proof -
  from assms(1) have "mesh_loop g 0 (replicate (size_g g) None) [] = Ok (mesh, out)"
    by (simp add: build_mesh_def split: if_splits)
  from mesh_loop_Ok [OF this] assms(2) show ?thesis by simp
qed

lemma read_undgraph_cells:
  assumes "read_undgraph e fn = Ok (g, out)"
  shows "length (data g) = size_g g \<and> (\<forall>k<size_g g. data g ! k \<noteq> None)"
proof -
  from assms obtain fp g1 where
    g: "g = read_data fp (g1\<lparr>size_g := count_lines fp 0, data := replicate (count_lines fp 0) None\<rparr>)"
    by (rule read_undgraph_OkE)
  let ?n = "count_lines fp 0"
  have le: "?n \<le> length (lines_of fp)"
    by (simp add: count_lines_takeWhile length_takeWhile_le)
  have sz: "size_g g = ?n" by (simp add: g read_data_frame)
  have cells: "data g = map (\<lambda>l. Some (strtof l)) (take ?n (lines_of fp))"
    unfolding g using le by (rule read_data_cells)
  from le show ?thesis by (simp add: sz cells)
qed

lemma read_undgraph_max_lower:
  assumes "read_undgraph e fn = Ok (g, out)"
  shows "fle (Fin FLT_MIN) (max_value g)"
proof -
  from assms obtain fp g3 where g: "g = read_data fp g3"
    by (rule read_undgraph_OkE)
  have "fle (Fin FLT_MIN)
      (max_value (fill_data fp 0 (g3\<lparr>max_value := Fin FLT_MIN, min_value := Fin FLT_MAX\<rparr>)))"
    by (rule fill_data_max_lower) (simp add: fle_refl)
  then show ?thesis by (simp add: g read_data_def Let_def)
qed

lemma fmul_commute: "fmul x y = fmul y x"
  by (cases x; cases y) (simp_all add: mult.commute)

lemma flt_of_int_WIDTH: "flt_of_int WIDTH = Fin 1152"
  by (simp add: flt_of_int_def WIDTH_def flt_round_numeral)

lemma flt_of_int_HEIGHT: "flt_of_int HEIGHT = Fin 648"
  by (simp add: flt_of_int_def HEIGHT_def flt_round_numeral)

lemma flt_of_int_2: "flt_of_int 2 = Fin 2"
  by (simp add: flt_of_int_def flt_round_numeral)

lemma flt_round_nat_pos:
  assumes "0 < n" and "flt_round (real n) = Fin s"
  shows "1 \<le> s"
proof -
  have one: "round32 1 = 1"
    using round32_exact [where x = 1 and m = 1 and e = 149] by (simp add: FLT_TRUE_MIN_def)
  from assms(1) have "1 \<le> real n" by simp
  then have "round32 1 \<le> round32 (real n)" by (rule round32_mono)
  then have "1 \<le> round32 (real n)" by (simp only: one)
  moreover from assms(2) have "s = round32 (real n)"
    by (simp add: flt_round_def Let_def split: if_splits)
  ultimately show ?thesis by simp
qed

text \<open>
  The operations that make up the x coordinate are monotone, as rounding is.
\<close>

lemma flt_round_Fin_bound: "flt_round x = Fin r \<Longrightarrow> r = round32 x \<and> \<bar>r\<bar> \<le> FLT_MAX"
  by (auto simp: flt_round_def Let_def split: if_splits)

lemma round32_top: "round32 (FLT_MAX + 1152) = FLT_MAX"
proof -
  have u: "ulp32 \<bar>FLT_MAX + 1152\<bar> = 2 ^ 104"
    by (rule ulp32_top) (simp add: FLT_MAX_def)
  have "round_half_even ((FLT_MAX + 1152) / 2 ^ 104) = 2 ^ 24 - 1"
    by (simp add: round_half_even_def FLT_MAX_def)
  then have "round32 (FLT_MAX + 1152) = of_int (2 ^ 24 - 1) * 2 ^ 104"
    by (simp only: round32_def u)
  also have "\<dots> = FLT_MAX" by (simp add: FLT_MAX_def)
  finally show ?thesis .
qed

lemma flt_of_nat_Fin:
  assumes "n < 2 ^ 64"
  shows "flt_of_nat n = Fin (round32 (real n)) \<and> 0 \<le> round32 (real n)"
proof -
  have big: "round32 (2 ^ 64) = 2 ^ 64"
    using round32_exact [where x = "2 ^ 64" and m = 1 and e = 213] by (simp add: FLT_TRUE_MIN_def)
  have lo: "0 \<le> round32 (real n)" by (rule round32_nonneg) simp
  from assms have "real n \<le> 2 ^ 64"
    by (metis less_imp_le of_nat_le_iff of_nat_numeral of_nat_power)
  then have "round32 (real n) \<le> round32 (2 ^ 64)" by (rule round32_mono)
  then have hi: "round32 (real n) \<le> 2 ^ 64" by (simp only: big)
  have "(2::real) ^ 64 \<le> FLT_MAX" by (simp add: FLT_MAX_def)
  with lo hi have "flt_round (real n) = Fin (round32 (real n))"
    by (simp add: flt_round_def Let_def)
  with lo show ?thesis by (simp add: flt_of_nat_def)
qed

lemma fle_PInf: "a \<noteq> NaN \<Longrightarrow> fle a PInf"
  by (cases a) (simp_all add: fle_def)

lemma fle_NInf: "a \<noteq> NaN \<Longrightarrow> fle NInf a"
  by (cases a) (simp_all add: fle_def)

lemma fdiv_mono:
  assumes "fle a b" and "0 < s"
  shows "fle (fdiv a (Fin s)) (fdiv b (Fin s))"
proof (cases a)
  case (Fin x)
  show ?thesis
  proof (cases b)
    case (Fin y)
    with assms \<open>a = Fin x\<close> have "x / s \<le> y / s" by (simp add: fle_def divide_right_mono)
    then have "fle (flt_round (x / s)) (flt_round (y / s))" by (rule flt_round_mono)
    with assms(2) \<open>a = Fin x\<close> Fin show ?thesis by simp
  next
    case PInf
    with assms(2) \<open>a = Fin x\<close> show ?thesis by (simp add: fle_PInf flt_round_not_NaN)
  next
    case NInf
    with assms(1) \<open>a = Fin x\<close> show ?thesis by (simp add: fle_def)
  next
    case NaN
    with assms(1) show ?thesis by (simp add: fle_def)
  qed
next
  case PInf
  with assms show ?thesis by (cases b) (simp_all add: fle_def)
next
  case NInf
  from assms(1) have "b \<noteq> NaN" by (simp add: fle_def)
  then have "fdiv b (Fin s) \<noteq> NaN" using assms(2) by (cases b) (simp_all add: flt_round_not_NaN)
  with NInf assms(2) show ?thesis by (simp add: fle_NInf)
next
  case NaN
  with assms(1) show ?thesis by (simp add: fle_def)
qed

lemma fadd_mono:
  assumes "fle a b"
  shows "fle (fadd (Fin p) a) (fadd (Fin p) b)"
proof (cases a)
  case (Fin x)
  show ?thesis
  proof (cases b)
    case (Fin y)
    with assms \<open>a = Fin x\<close> have "p + x \<le> p + y" by (simp add: fle_def)
    then have "fle (flt_round (p + x)) (flt_round (p + y))" by (rule flt_round_mono)
    with \<open>a = Fin x\<close> Fin show ?thesis by simp
  next
    case PInf
    with \<open>a = Fin x\<close> show ?thesis by (simp add: fle_PInf flt_round_not_NaN)
  next
    case NInf
    with assms \<open>a = Fin x\<close> show ?thesis by (simp add: fle_def)
  next
    case NaN
    with assms show ?thesis by (simp add: fle_def)
  qed
next
  case PInf
  with assms show ?thesis by (cases b) (simp_all add: fle_def)
next
  case NInf
  from assms have "b \<noteq> NaN" by (simp add: fle_def)
  then have "fadd (Fin p) b \<noteq> NaN" by (cases b) (simp_all add: flt_round_not_NaN)
  with NInf show ?thesis by (simp add: fle_NInf)
next
  case NaN
  with assms show ?thesis by (simp add: fle_def)
qed

lemma vertex_x_mono:
  assumes "size_g g < 2 ^ 64" and "Suc i < size_g g"
    and "fmul (Fin 2) (frame_px g) = Fin t" and "t < 1152"
  shows "fle (vertex_x g i) (vertex_x g (Suc i))"
proof -
  from assms(3) obtain p where p: "frame_px g = Fin p"
    by (cases "frame_px g") (simp_all split: if_splits)
  with assms(3) have t: "flt_round (p * 2) = Fin t" by (simp add: mult.commute)
  then have "\<bar>t\<bar> \<le> FLT_MAX" using flt_round_Fin_bound by blast
  then have "1152 - t \<le> FLT_MAX + 1152" by simp
  then have "round32 (1152 - t) \<le> round32 (FLT_MAX + 1152)" by (rule round32_mono)
  then have hi: "round32 (1152 - t) \<le> FLT_MAX" by (simp only: round32_top)
  from assms(4) have lo: "0 \<le> round32 (1152 - t)" by (intro round32_nonneg) simp
  have "0 < FLT_MAX" by (simp add: FLT_MAX_def)
  with lo hi have w: "flt_round (1152 - t) = Fin (round32 (1152 - t))"
    by (simp add: flt_round_def Let_def)
  let ?w = "round32 (1152 - t)"
  from assms(1,2) have i: "i < 2 ^ 64" and si: "Suc i < 2 ^ 64" by simp_all
  note ai = flt_of_nat_Fin [OF i] and asi = flt_of_nat_Fin [OF si]
  from assms(2) have "0 < size_g g" by simp
  from flt_of_nat_finite [OF this assms(1)] obtain s where s: "flt_of_nat (size_g g) = Fin s"
    and s1: "1 \<le> s" by (auto simp: flt_of_nat_def)
  have "round32 (real i) \<le> round32 (real (Suc i))" by (rule round32_mono) simp
  then have "round32 (real i) * ?w \<le> round32 (real (Suc i)) * ?w"
    using lo by (rule mult_right_mono)
  then have "fle (flt_round (round32 (real i) * ?w)) (flt_round (round32 (real (Suc i)) * ?w))"
    by (rule flt_round_mono)
  then have "fle (fdiv (flt_round (round32 (real i) * ?w)) (Fin s))
                 (fdiv (flt_round (round32 (real (Suc i)) * ?w)) (Fin s))"
    using s1 by (intro fdiv_mono) simp_all
  then have "fle (fadd (Fin p) (fdiv (flt_round (round32 (real i) * ?w)) (Fin s)))
                 (fadd (Fin p) (fdiv (flt_round (round32 (real (Suc i)) * ?w)) (Fin s)))"
    by (rule fadd_mono)
  moreover have "vertex_x g k = fadd (Fin p) (fdiv (flt_round (round32 (real k) * ?w)) (Fin s))"
    if "flt_of_nat k = Fin (round32 (real k))" for k
    using that by (simp add: vertex_x_def p t w s flt_of_int_WIDTH flt_of_int_2 fsub_def)
  ultimately show ?thesis using ai asi by simp
qed

text \<open>
  Two files with a \<^verbatim>\<open>frame_px\<close> tag: a padding of 10, and an infinite one.
\<close>

lemma flt_round_1_2: "flt_round (1 / 2) = Fin (1 / 2)"
  by (rule flt_round_exact [where m = 1 and e = 148]) (simp_all add: FLT_TRUE_MIN_def)

lemma flt_round_neg_1: "flt_round (- 1) = Fin (- 1)"
  using flt_round_of_int [of "- 1"] by simp

lemma read_padded:
  "read_undgraph (file_env ''undgraph frame_px:10\<newline>5\<newline>-5\<newline>'') ''undgraph.txt'' =
     Ok (\<lparr>msaa = 0, save = 0, line_width = Fin 1, frame_px = Fin 10, max_value = Fin 5,
          min_value = Fin (- 5), tick_size = Fin 5, size_g = 2,
          data = [Some (Fin 5), Some (Fin (- 5))]\<rparr>, [Found_values 2])"
  by (simp add: run_defs scan_defs FLT_MIN_def FLT_MAX_def)

lemma mesh_padded:
  "build_mesh (file_env ''undgraph frame_px:10\<newline>5\<newline>-5\<newline>'')
     \<lparr>msaa = 0, save = 0, line_width = Fin 1, frame_px = Fin 10, max_value = Fin 5,
      min_value = Fin (- 5), tick_size = Fin 5, size_g = 2,
      data = [Some (Fin 5), Some (Fin (- 5))]\<rparr> =
   Ok ([Some (Fin 10, Fin 638), Some (Fin 576, Fin (- 618))], [])"
  by (simp add: mesh_defs flt_round_numeral flt_round_neg_numeral flt_round_neg_1 eval_nat_numeral)

lemma read_infinite_padding:
  "read_undgraph (file_env ''undgraph frame_px:-inf\<newline>1\<newline>2\<newline>'') ''undgraph.txt'' =
     Ok (\<lparr>msaa = 0, save = 0, line_width = Fin 1, frame_px = NInf, max_value = Fin 2,
          min_value = Fin 1, tick_size = Fin (1 / 2), size_g = 2,
          data = [Some (Fin 1), Some (Fin 2)]\<rparr>, [Found_values 2])"
  by (simp add: run_defs scan_defs FLT_MIN_def FLT_MAX_def flt_round_1_2)

lemma mesh_infinite_padding:
  "build_mesh (file_env ''undgraph frame_px:-inf\<newline>1\<newline>2\<newline>'')
     \<lparr>msaa = 0, save = 0, line_width = Fin 1, frame_px = NInf, max_value = Fin 2,
      min_value = Fin 1, tick_size = Fin (1 / 2), size_g = 2,
      data = [Some (Fin 1), Some (Fin 2)]\<rparr> =
   Ok ([Some (NaN, NaN), Some (NaN, NaN)],
       [Vertex_x_nan 0, Vertex_y_nan 0, Vertex_x_nan 1, Vertex_y_nan 1])"
  by (simp add: mesh_defs flt_round_numeral flt_round_1_2 eval_nat_numeral)


section \<open>The maximum is positive\<close>

text \<open>
  Claim C9.  For every input that \<^verbatim>\<open>read_undgraph\<close> accepts, whatever the samples,
  \<^verbatim>\<open>max_value\<close> is at least \<^verbatim>\<open>FLT_MIN\<close>, the value it starts from and that no
  comparison of the second pass lowers.  It is therefore greater than zero, and not
  zero: the division \<^verbatim>\<open>data[i] / max_value\<close> of the mesh never divides by zero.
\<close>

theorem max_value_positive:
  assumes "read_undgraph e fn = Ok (g, out)"
  shows "fle (Fin FLT_MIN) (max_value g) \<and> flt (Fin 0) (max_value g) \<and> max_value g \<noteq> Fin 0"
proof -
  from assms obtain fp g3 where g: "g = read_data fp g3"
    by (rule read_undgraph_OkE)
  have "fle (Fin FLT_MIN)
      (max_value (fill_data fp 0 (g3\<lparr>max_value := Fin FLT_MIN, min_value := Fin FLT_MAX\<rparr>)))"
    by (rule fill_data_max_lower) (simp add: fle_refl)
  then have le: "fle (Fin FLT_MIN) (max_value g)"
    by (simp add: g read_data_def Let_def)
  have "0 < FLT_MIN" by (simp add: FLT_MIN_def)
  with le show ?thesis by (cases "max_value g") (auto simp: fle_def)
qed


theorem max_value_positive_witness:
  "read_undgraph (file_env ''undgraph\<newline>-5\<newline>-3\<newline>'') ''undgraph.txt'' =
     Ok (\<lparr>msaa = 0, save = 0, line_width = Fin 1, frame_px = Fin 0, max_value = Fin FLT_MIN,
          min_value = Fin (- 5), tick_size = Fin (5 / 2), size_g = 2,
          data = [Some (Fin (- 5)), Some (Fin (- 3))]\<rparr>, [Found_values 2])
   \<and> fle (Fin FLT_MIN) (Fin FLT_MIN) \<and> flt (Fin 0) (Fin FLT_MIN) \<and> Fin FLT_MIN \<noteq> Fin 0"
proof (intro conjI)
  from max_value_positive [OF read_negative_samples]
  show "fle (Fin FLT_MIN) (Fin FLT_MIN)" and "flt (Fin 0) (Fin FLT_MIN)" and "Fin FLT_MIN \<noteq> Fin 0"
    by simp_all
qed (rule read_negative_samples)

section \<open>Count, buffer and bounds\<close>

text \<open>
  Claim C1, amended.  The claim as stated fails for a sample that is a NaN: the line
  \<^verbatim>\<open>nan\<close> is accepted by \<^verbatim>\<open>%f\<close> and stored, and no comparison with a NaN holds.
\<close>

theorem nan_sample_outside_bounds:
  "read_undgraph (file_env ''undgraph\<newline>nan\<newline>'') ''undgraph.txt'' =
     Ok (\<lparr>msaa = 0, save = 0, line_width = Fin 1, frame_px = Fin 0, max_value = Fin FLT_MIN,
          min_value = Fin FLT_MAX, tick_size = Fin FLT_MAX, size_g = 1,
          data = [Some NaN]\<rparr>, [Found_values 1])
   \<and> \<not> fle (Fin FLT_MAX) NaN \<and> \<not> fle NaN (Fin FLT_MIN)"
  by (simp add: read_nan_sample fle_def)

text \<open>
  Claim C1, as amended.  When \<^verbatim>\<open>read_undgraph\<close> accepts a file, \<open>fp\<close> being the
  file behind its header: \<^verbatim>\<open>size\<close> is the number of lines, as \<^verbatim>\<open>fgets\<close> delivers
  them, before the first one that \<^verbatim>\<open>%f\<close> rejects; the buffer has exactly \<^verbatim>\<open>size\<close>
  cells and the second pass writes every one of them, cell \<open>k\<close> with \<^verbatim>\<open>strtof\<close> of
  line \<open>k\<close>; when every line of the data section is a sample line, \<^verbatim>\<open>size\<close> is
  the number of these lines; and every stored sample that is not a NaN lies between
  \<^verbatim>\<open>min_value\<close> and \<^verbatim>\<open>max_value\<close>.
\<close>

theorem samples_counted_and_bounded:
  assumes "fopen_r e fn = Some content" and "fgets 64 content = Some (buf, fp)"
    and "read_undgraph e fn = Ok (g, out)"
  shows "size_g g = length (takeWhile sample_line (lines_of fp))
    \<and> length (data g) = size_g g
    \<and> data g = map (\<lambda>l. Some (strtof l)) (take (size_g g) (lines_of fp))
    \<and> ((\<forall>l\<in>set (lines_of fp). sample_line l) \<longrightarrow> size_g g = length (lines_of fp))
    \<and> (\<forall>v. Some v \<in> set (data g) \<longrightarrow> v \<noteq> NaN \<longrightarrow>
          fle (min_value g) v \<and> fle v (max_value g))"
proof -
  from assms(3) obtain content' buf' fp' g1 where c: "fopen_r e fn = Some content'"
    and b: "fgets 64 content' = Some (buf', fp')"
    and g: "g = read_data fp' (g1\<lparr>size_g := count_lines fp' 0, data := replicate (count_lines fp' 0) None\<rparr>)"
    by (rule read_undgraph_OkE)
  from c b assms(1,2) have fp: "fp' = fp" by simp
  let ?n = "count_lines fp 0"
  have n: "?n = length (takeWhile sample_line (lines_of fp))"
    by (simp add: count_lines_takeWhile)
  then have le: "?n \<le> length (lines_of fp)" by (simp add: length_takeWhile_le)
  have sz: "size_g g = ?n" by (simp add: g fp read_data_frame)
  have cells: "data g = map (\<lambda>l. Some (strtof l)) (take ?n (lines_of fp))"
    unfolding g fp using le by (rule read_data_cells)
  have "bounded g" unfolding g by (rule read_data_bounded)
  then have bd: "\<forall>v. Some v \<in> set (data g) \<longrightarrow> v \<noteq> NaN \<longrightarrow>
          fle (min_value g) v \<and> fle v (max_value g)"
    by (simp add: bounded_def)
  have all: "(\<forall>l\<in>set (lines_of fp). sample_line l) \<longrightarrow> size_g g = length (lines_of fp)"
  proof
    assume "\<forall>l\<in>set (lines_of fp). sample_line l"
    then have "takeWhile sample_line (lines_of fp) = lines_of fp"
      by (simp only: takeWhile_eq_all_conv)
    then have "length (takeWhile sample_line (lines_of fp)) = length (lines_of fp)"
      by (rule arg_cong)
    then show "size_g g = length (lines_of fp)" unfolding sz n .
  qed
  from sz n cells le bd all show ?thesis by simp
qed

theorem samples_counted_and_bounded_witness:
  "fopen_r (file_env ''undgraph\<newline>5\<newline>-5\<newline>'') ''undgraph.txt'' = Some ''undgraph\<newline>5\<newline>-5\<newline>''
   \<and> fgets 64 ''undgraph\<newline>5\<newline>-5\<newline>'' = Some (''undgraph\<newline>'', ''5\<newline>-5\<newline>'')
   \<and> read_undgraph (file_env ''undgraph\<newline>5\<newline>-5\<newline>'') ''undgraph.txt'' =
     Ok (\<lparr>msaa = 0, save = 0, line_width = Fin 1, frame_px = Fin 0, max_value = Fin 5,
          min_value = Fin (- 5), tick_size = Fin 5, size_g = 2,
          data = [Some (Fin 5), Some (Fin (- 5))]\<rparr>, [Found_values 2])
   \<and> (2::nat) = length (lines_of ''5\<newline>-5\<newline>'')
   \<and> fle (Fin (- 5)) (Fin 5) \<and> fle (Fin 5) (Fin 5)"
proof -
  have f: "fopen_r (file_env ''undgraph\<newline>5\<newline>-5\<newline>'') ''undgraph.txt'' = Some ''undgraph\<newline>5\<newline>-5\<newline>''"
    by (simp add: file_env_def)
  have b: "fgets 64 ''undgraph\<newline>5\<newline>-5\<newline>'' = Some (''undgraph\<newline>'', ''5\<newline>-5\<newline>'')"
    by (simp add: scan_defs)
  have s: "\<forall>l\<in>set (lines_of ''5\<newline>-5\<newline>''). sample_line l"
    by (simp add: lines_two sample_line_def scan_defs)
  from samples_counted_and_bounded [OF f b read_two_samples] s
  have "(2::nat) = length (lines_of ''5\<newline>-5\<newline>'')"
    and "fle (Fin (- 5)) (Fin 5) \<and> fle (Fin 5) (Fin 5)"
    by simp_all
  with f b read_two_samples show ?thesis by simp
qed

section \<open>The maximum of negative samples\<close>

text \<open>
  Claim C3 says that \<^verbatim>\<open>max_value\<close> is the maximum of the samples.  On the samples
  \<open>-5\<close> and \<open>-3\<close> the code returns \<^verbatim>\<open>FLT_MIN\<close>, the smallest positive normal
  \<^verbatim>\<open>float\<close> that \<^verbatim>\<open>max_value\<close> starts from: no sample has that value, and the
  largest sample, \<open>-3\<close>, is below it.
\<close>

theorem negative_samples_maximum:
  "read_undgraph (file_env ''undgraph\<newline>-5\<newline>-3\<newline>'') ''undgraph.txt'' =
     Ok (\<lparr>msaa = 0, save = 0, line_width = Fin 1, frame_px = Fin 0, max_value = Fin FLT_MIN,
          min_value = Fin (- 5), tick_size = Fin (5 / 2), size_g = 2,
          data = [Some (Fin (- 5)), Some (Fin (- 3))]\<rparr>, [Found_values 2])
   \<and> Some (Fin FLT_MIN) \<notin> set [Some (Fin (- 5)), Some (Fin (- 3))]
   \<and> flt (Fin (- 3)) (Fin FLT_MIN)"
  by (simp add: read_negative_samples FLT_MIN_def)


section \<open>Unparsable lines\<close>

text \<open>
  Claim C6, as stated, fails.  In the file below the second data line, \<^verbatim>\<open>abc\<close>, is
  fully unparsable.  It does not become a sample 0 at position 1 and the parsing does
  not go on to the line \<^verbatim>\<open>2\<close>: the first pass stops counting at it, so the series
  has the single sample 1.
\<close>

theorem unparsable_line_ends_series:
  "read_undgraph (file_env ''undgraph\<newline>1\<newline>abc\<newline>2\<newline>'') ''undgraph.txt'' =
     Ok (\<lparr>msaa = 0, save = 0, line_width = Fin 1, frame_px = Fin 0, max_value = Fin 1,
          min_value = Fin 1, tick_size = Fin 0, size_g = 1, data = [Some (Fin 1)]\<rparr>,
         [Found_values 1])
   \<and> fgets 64 ''undgraph\<newline>1\<newline>abc\<newline>2\<newline>'' = Some (''undgraph\<newline>'', ''1\<newline>abc\<newline>2\<newline>'')
   \<and> lines_of ''1\<newline>abc\<newline>2\<newline>'' = [''1\<newline>'', ''abc\<newline>'', ''2\<newline>'']
   \<and> sscanf_f ''abc\<newline>'' = None \<and> strtof ''abc\<newline>'' = Fin 0"
  by (simp add: read_unparsable_line lines_unparsable) (simp add: scan_defs)

text \<open>
  Claim C6, as amended.  The second pass converts the first \<^verbatim>\<open>size\<close> data lines
  with \<^verbatim>\<open>strtof\<close>, and each of them was accepted by \<^verbatim>\<open>%f\<close> in the first pass: the
  stored sample is the leading number of the line, and what follows the number on the
  line is ignored (\<^verbatim>\<open>1.5abc\<close> gives 1.5).  \<^verbatim>\<open>strtof\<close> gives 0 for a fully unparsable
  line (\<^verbatim>\<open>abc\<close>), but the second pass never reaches one: when lines remain after the
  first \<^verbatim>\<open>size\<close>, the next one is a line that \<^verbatim>\<open>%f\<close> rejects, and it ends the series.
\<close>

theorem fill_pass_reads_counted_lines:
  assumes "fopen_r e fn = Some content" and "fgets 64 content = Some (buf, fp)"
    and "read_undgraph e fn = Ok (g, out)"
  shows "size_g g \<le> length (lines_of fp)
    \<and> data g = map (\<lambda>l. Some (strtof l)) (take (size_g g) (lines_of fp))
    \<and> (\<forall>k<size_g g. \<exists>v. sscanf_f (lines_of fp ! k) = Some v \<and> data g ! k = Some v)
    \<and> (size_g g < length (lines_of fp) \<longrightarrow> sscanf_f (lines_of fp ! size_g g) = None)
    \<and> strtof ''1.5abc\<newline>'' = Fin (3 / 2) \<and> strtof ''abc\<newline>'' = Fin 0"
proof -
  from assms(3) obtain content' buf' fp' g1 where c: "fopen_r e fn = Some content'"
    and b: "fgets 64 content' = Some (buf', fp')"
    and g: "g = read_data fp' (g1\<lparr>size_g := count_lines fp' 0, data := replicate (count_lines fp' 0) None\<rparr>)"
    by (rule read_undgraph_OkE)
  from c b assms(1,2) have fp: "fp' = fp" by simp
  let ?n = "count_lines fp 0" and ?ls = "lines_of fp"
  have n: "?n = length (takeWhile sample_line ?ls)"
    by (simp add: count_lines_takeWhile)
  then have le: "?n \<le> length ?ls" by (simp add: length_takeWhile_le)
  have sz: "size_g g = ?n" by (simp add: g fp read_data_frame)
  have cells: "data g = map (\<lambda>l. Some (strtof l)) (take ?n ?ls)"
    unfolding g fp using le by (rule read_data_cells)
  have acc: "\<exists>v. sscanf_f (?ls ! k) = Some v \<and> data g ! k = Some v" if k: "k < ?n" for k
  proof -
    from k have "k < length (takeWhile sample_line ?ls)" by (simp only: n)
    then have "takeWhile sample_line ?ls ! k \<in> set (takeWhile sample_line ?ls)"
      by (rule nth_mem)
    then have "sample_line (takeWhile sample_line ?ls ! k)"
      by (rule set_takeWhileD [THEN conjunct2])
    moreover from \<open>k < length (takeWhile sample_line ?ls)\<close>
    have "takeWhile sample_line ?ls ! k = ?ls ! k" by (rule takeWhile_nth)
    ultimately obtain v where v: "sscanf_f (?ls ! k) = Some v"
      by (auto simp: sample_line_def)
    then have "strtof (?ls ! k) = v" by (rule sscanf_f_strtof)
    with v k le show ?thesis by (simp add: cells)
  qed
  have stop: "sscanf_f (?ls ! ?n) = None" if "?n < length ?ls"
  proof -
    from that have "\<not> sample_line (?ls ! length (takeWhile sample_line ?ls))"
      unfolding n by (rule nth_length_takeWhile)
    then show ?thesis by (simp add: n sample_line_def)
  qed
  have ex: "strtof ''1.5abc\<newline>'' = Fin (3 / 2) \<and> strtof ''abc\<newline>'' = Fin 0"
    using flt_round_exact [where x = "3 / 2" and m = 3 and e = 148]
    by (simp add: scan_defs FLT_TRUE_MIN_def)
  from le cells acc stop ex show ?thesis unfolding sz by blast
qed

theorem fill_pass_reads_counted_lines_witness:
  "fopen_r (file_env ''undgraph\<newline>1.5abc\<newline>xyz\<newline>2\<newline>'') ''undgraph.txt'' =
     Some ''undgraph\<newline>1.5abc\<newline>xyz\<newline>2\<newline>''
   \<and> fgets 64 ''undgraph\<newline>1.5abc\<newline>xyz\<newline>2\<newline>'' =
     Some (''undgraph\<newline>'', ''1.5abc\<newline>xyz\<newline>2\<newline>'')
   \<and> read_undgraph (file_env ''undgraph\<newline>1.5abc\<newline>xyz\<newline>2\<newline>'') ''undgraph.txt'' =
     Ok (\<lparr>msaa = 0, save = 0, line_width = Fin 1, frame_px = Fin 0, max_value = Fin (3 / 2),
          min_value = Fin (3 / 2), tick_size = Fin 0, size_g = 1, data = [Some (Fin (3 / 2))]\<rparr>,
         [Found_values 1])
   \<and> [Some (Fin (3 / 2))] =
      map (\<lambda>l. Some (strtof l)) (take 1 (lines_of ''1.5abc\<newline>xyz\<newline>2\<newline>''))
   \<and> sscanf_f ''xyz\<newline>'' = None"
proof -
  have f: "fopen_r (file_env ''undgraph\<newline>1.5abc\<newline>xyz\<newline>2\<newline>'') ''undgraph.txt'' =
     Some ''undgraph\<newline>1.5abc\<newline>xyz\<newline>2\<newline>''"
    by (simp add: file_env_def)
  have b: "fgets 64 ''undgraph\<newline>1.5abc\<newline>xyz\<newline>2\<newline>'' =
     Some (''undgraph\<newline>'', ''1.5abc\<newline>xyz\<newline>2\<newline>'')"
    by (simp add: scan_defs)
  note th = fill_pass_reads_counted_lines [OF f b read_trailing_garbage]
  have c: "[Some (Fin (3 / 2))] =
      map (\<lambda>l. Some (strtof l)) (take 1 (lines_of ''1.5abc\<newline>xyz\<newline>2\<newline>''))"
    using th [THEN conjunct2, THEN conjunct1] by simp
  have d: "sscanf_f ''xyz\<newline>'' = None"
    using th [THEN conjunct2, THEN conjunct2, THEN conjunct2, THEN conjunct1]
    by (simp add: lines_trailing_garbage)
  from f b read_trailing_garbage c d show ?thesis by (intro conjI)
qed


section \<open>The tick size\<close>

text \<open>
  Claim C7.  After \<^verbatim>\<open>read_undgraph\<close> has succeeded with at least one sample (and a
  count in the range of \<^verbatim>\<open>size_t\<close>), \<^verbatim>\<open>tick_size\<close> is the absolute value of
  \<^verbatim>\<open>max_value - min_value\<close> divided by the count, in \<^verbatim>\<open>float\<close> arithmetic, from
  the final \<^verbatim>\<open>max_value\<close>, \<^verbatim>\<open>min_value\<close> and \<^verbatim>\<open>size\<close>.  In real numbers: the
  count converts to a finite \<open>s \<ge> 1\<close>; when both bounds are finite, \<open>mx\<close> and
  \<open>mn\<close>, and their difference rounds to a finite \<open>d\<close>, the tick size is
  \<open>\<bar>d\<bar> / s\<close>, rounded; when the difference overflows or a bound is an infinity,
  the tick size is \<open>+\<infinity>\<close>.  No other case arises: \<^verbatim>\<open>max_value\<close> is finite or
  \<open>+\<infinity>\<close>, \<^verbatim>\<open>min_value\<close> is finite or \<open>-\<infinity>\<close>.
\<close>

theorem tick_size_formula:
  assumes "read_undgraph e fn = Ok (g, out)" and "0 < size_g g" and "size_g g < 2 ^ 64"
  shows "\<exists>s. flt_round (real (size_g g)) = Fin s \<and> 1 \<le> s \<and>
     (case (max_value g, min_value g) of
        (Fin mx, Fin mn) \<Rightarrow>
          (case flt_round (mx - mn) of
             Fin d \<Rightarrow> tick_size g = flt_round (\<bar>d\<bar> / s)
           | PInf \<Rightarrow> tick_size g = PInf
           | NInf \<Rightarrow> tick_size g = PInf
           | NaN \<Rightarrow> False)
      | (Fin mx, NInf) \<Rightarrow> tick_size g = PInf
      | (PInf, Fin mn) \<Rightarrow> tick_size g = PInf
      | (PInf, NInf) \<Rightarrow> tick_size g = PInf
      | (mx, mn) \<Rightarrow> False)"
proof -
  from assms(1) obtain fp g3 where g: "g = read_data fp g3"
    by (rule read_undgraph_OkE)
  let ?g0 = "g3\<lparr>max_value := Fin FLT_MIN, min_value := Fin FLT_MAX\<rparr>"
  let ?g4 = "fill_data fp 0 ?g0"
  have mx: "max_value g = max_value ?g4" and mn: "min_value g = min_value ?g4"
    and sz: "size_g g = size_g ?g4"
    and tk: "tick_size g = fdiv (fabsf (fsub (max_value ?g4) (min_value ?g4))) (flt_of_nat (size_g ?g4))"
    by (simp_all add: g read_data_def Let_def)
  have "fle (Fin FLT_MIN) (max_value ?g4)" by (rule fill_data_max_lower) (simp add: fle_refl)
  then have lo: "fle (Fin FLT_MIN) (max_value g)" by (simp only: mx)
  have "fle (min_value ?g4) (Fin FLT_MAX)" by (rule fill_data_min_upper) (simp add: fle_refl)
  then have hi: "fle (min_value g) (Fin FLT_MAX)" by (simp only: mn)
  from flt_of_nat_finite [OF assms(2,3)] obtain s where s: "flt_round (real (size_g g)) = Fin s"
    and s1: "1 \<le> s" by blast
  have tick: "tick_size g = fdiv (fabsf (fsub (max_value g) (min_value g))) (Fin s)"
    using tk s by (simp add: mx mn sz flt_of_nat_def)
  have "case (max_value g, min_value g) of
        (Fin mx, Fin mn) \<Rightarrow>
          (case flt_round (mx - mn) of
             Fin d \<Rightarrow> tick_size g = flt_round (\<bar>d\<bar> / s)
           | PInf \<Rightarrow> tick_size g = PInf
           | NInf \<Rightarrow> tick_size g = PInf
           | NaN \<Rightarrow> False)
      | (Fin mx, NInf) \<Rightarrow> tick_size g = PInf
      | (PInf, Fin mn) \<Rightarrow> tick_size g = PInf
      | (PInf, NInf) \<Rightarrow> tick_size g = PInf
      | (mx, mn) \<Rightarrow> False"
  proof (cases "max_value g")
    case (Fin a)
    show ?thesis
    proof (cases "min_value g")
      case (Fin b)
      show ?thesis
      proof (cases "flt_round (a - b)")
        case (Fin d)
        with \<open>max_value g = Fin a\<close> \<open>min_value g = Fin b\<close> s1 show ?thesis
          by (simp add: tick fsub_def)
      next
        case PInf
        with \<open>max_value g = Fin a\<close> \<open>min_value g = Fin b\<close> s1 show ?thesis
          by (simp add: tick fsub_def)
      next
        case NInf
        with \<open>max_value g = Fin a\<close> \<open>min_value g = Fin b\<close> s1 show ?thesis
          by (simp add: tick fsub_def)
      next
        case NaN
        then show ?thesis by (simp add: flt_round_not_NaN)
      qed
    next
      case PInf
      with hi show ?thesis by (simp add: fle_def)
    next
      case NInf
      with \<open>max_value g = Fin a\<close> s1 show ?thesis by (simp add: tick fsub_def)
    next
      case NaN
      with hi show ?thesis by (simp add: fle_def)
    qed
  next
    case PInf
    show ?thesis
    proof (cases "min_value g")
      case (Fin b)
      with PInf s1 show ?thesis by (simp add: tick fsub_def)
    next
      case PInf
      with hi show ?thesis by (simp add: fle_def)
    next
      case NInf
      with \<open>max_value g = PInf\<close> s1 show ?thesis by (simp add: tick fsub_def)
    next
      case NaN
      with hi show ?thesis by (simp add: fle_def)
    qed
  next
    case NInf
    with lo show ?thesis by (simp add: fle_def)
  next
    case NaN
    with lo show ?thesis by (simp add: fle_def)
  qed
  with s s1 show ?thesis by blast
qed

text \<open>
  On the single sample \<^verbatim>\<open>nan\<close> the bounds keep their initial values, the
  difference \<^verbatim>\<open>FLT_MIN - FLT_MAX\<close> is negative, and the tick size is its absolute
  value.
\<close>

theorem tick_size_formula_witness:
  "read_undgraph (file_env ''undgraph\<newline>nan\<newline>'') ''undgraph.txt'' =
     Ok (\<lparr>msaa = 0, save = 0, line_width = Fin 1, frame_px = Fin 0, max_value = Fin FLT_MIN,
          min_value = Fin FLT_MAX, tick_size = Fin FLT_MAX, size_g = 1,
          data = [Some NaN]\<rparr>, [Found_values 1])
   \<and> (0::nat) < 1 \<and> (1::nat) < 2 ^ 64
   \<and> flt_round (real 1) = Fin 1
   \<and> flt_round (FLT_MIN - FLT_MAX) = Fin (- FLT_MAX)
   \<and> Fin FLT_MAX = flt_round (\<bar>- FLT_MAX\<bar> / 1)"
proof -
  have "(0::nat) < 1" and "(1::nat) < 2 ^ 64" by simp_all
  from tick_size_formula [OF read_nan_sample]
  obtain s where "flt_round (real 1) = Fin s"
    and "Fin FLT_MAX = flt_round (\<bar>- FLT_MAX\<bar> / s)"
    by (auto simp: flt_round_span)
  then have "Fin FLT_MAX = flt_round (\<bar>- FLT_MAX\<bar> / 1)" by simp
  with read_nan_sample show ?thesis by (simp add: flt_round_span)
qed

section \<open>A header without data\<close>





section \<open>The magic token\<close>

text \<open>
  Claim C4, as stated, fails for a first line whose magic token does not lie within
  the first 63 bytes.  The first line below is 56 blanks and then \<^verbatim>\<open>undgraph\<close>: its
  first token is the magic token, but \<^verbatim>\<open>fgets\<close> cuts the header after
  \<^verbatim>\<open>undgrap\<close>, and \<^verbatim>\<open>read_undgraph\<close> takes its exit for a refused header.
\<close>

theorem padded_magic_refused:
  "first_token (first_line ''                                                        undgraph\<newline>1.0\<newline>'') = ''undgraph''
   \<and> fgets 64 ''                                                        undgraph\<newline>1.0\<newline>'' = Some (''                                                        undgrap'', ''h\<newline>1.0\<newline>'')
   \<and> read_undgraph (file_env ''                                                        undgraph\<newline>1.0\<newline>'') ''undgraph.txt'' = Undefined Header_message"
  by (simp add: first_token_def first_line_def read_undgraph_def file_env_def scan_defs)

text \<open>
  Claim C4, as amended.  \<open>buf\<close> is the header as \<^verbatim>\<open>fgets\<close> delivers it: up to its
  newline it is the first 63 bytes of the first line of the file.  When it holds a
  token, \<^verbatim>\<open>read_undgraph\<close> takes its exit for a refused header, where the
  specification has the format error, if and only if the first token of \<open>buf\<close> is not
  \<^verbatim>\<open>undgraph\<close>.  The statement is about which exit is taken; the message printed
  at that exit lacks its argument.
\<close>

theorem invalid_header_exit:
  assumes "fopen_r e fn = Some content" and "fgets 64 content = Some (buf, fp)"
    and "dropWhile isspace (c_str buf) \<noteq> []"
  shows "(read_undgraph e fn = Undefined Header_message \<longleftrightarrow> first_token (c_str buf) \<noteq> ''undgraph'')
    \<and> takeWhile (\<lambda>c. c \<noteq> CHR 0x0A) buf = take 63 (first_line content)"
proof -
  from scan_s_first_token [OF assms(3)] obtain n where
    sc: "scan_s 31 (c_str buf) = Some (take 31 (first_token (c_str buf)), n)" ..
  let ?h = "header_tags (c_str buf) (length (c_str buf)) 0 n (default_tags graphdata0)"
  have iff: "read_undgraph e fn = Undefined Header_message \<longleftrightarrow> first_token (c_str buf) \<noteq> ''undgraph''"
  proof (cases "first_token (c_str buf) = ''undgraph''")
    case True
    have "read_undgraph e fn \<noteq> Undefined Header_message"
      using header_tags_not_header_message [of "c_str buf" "length (c_str buf)" 0 n "default_tags graphdata0"]
      by (cases ?h) (simp_all add: read_undgraph_def assms(1,2) sc True Let_def)
    with True show ?thesis by simp
  next
    case False
    then have "take 31 (first_token (c_str buf)) \<noteq> ''undgraph''"
      by (simp only: take_31_undgraph not_False_eq_True)
    then have "read_undgraph e fn = Undefined Header_message"
      by (simp add: read_undgraph_def assms(1,2) sc Let_def)
    with False show ?thesis by simp
  qed
  from assms(2) have "fgets_buf 63 content = (buf, fp)"
    by (simp add: fgets_def split: if_splits)
  then have "takeWhile (\<lambda>c. c \<noteq> CHR 0x0A) buf = take 63 (first_line content)"
    unfolding first_line_def by (rule fgets_buf_first_line)
  with iff show ?thesis by simp
qed

text \<open>The input of the specification that begins with \<^verbatim>\<open>notundgraph\<close>.\<close>

theorem invalid_header_exit_witness:
  "fopen_r (file_env ''notundgraph\<newline>1.0\<newline>2.0\<newline>'') ''undgraph.txt'' = Some ''notundgraph\<newline>1.0\<newline>2.0\<newline>''
   \<and> fgets 64 ''notundgraph\<newline>1.0\<newline>2.0\<newline>'' = Some (''notundgraph\<newline>'', ''1.0\<newline>2.0\<newline>'')
   \<and> dropWhile isspace (c_str ''notundgraph\<newline>'') \<noteq> []
   \<and> first_token (c_str ''notundgraph\<newline>'') = ''notundgraph''
   \<and> read_undgraph (file_env ''notundgraph\<newline>1.0\<newline>2.0\<newline>'') ''undgraph.txt'' = Undefined Header_message"
proof -
  have f: "fopen_r (file_env ''notundgraph\<newline>1.0\<newline>2.0\<newline>'') ''undgraph.txt'' = Some ''notundgraph\<newline>1.0\<newline>2.0\<newline>''"
    by (simp add: file_env_def)
  have b: "fgets 64 ''notundgraph\<newline>1.0\<newline>2.0\<newline>'' = Some (''notundgraph\<newline>'', ''1.0\<newline>2.0\<newline>'')"
    by (simp add: scan_defs)
  have d: "dropWhile isspace (c_str ''notundgraph\<newline>'') \<noteq> []"
    by (simp add: scan_defs)
  have t: "first_token (c_str ''notundgraph\<newline>'') = ''notundgraph''"
    by (simp add: first_token_def scan_defs)
  have "first_token (c_str ''notundgraph\<newline>'') \<noteq> ''undgraph''" by (simp add: t)
  with invalid_header_exit [OF f b d, THEN conjunct1]
  have r: "read_undgraph (file_env ''notundgraph\<newline>1.0\<newline>2.0\<newline>'') ''undgraph.txt'' = Undefined Header_message"
    by (rule iffD2)
  from f b d t r show ?thesis by (intro conjI)
qed

section \<open>Tags that start with a key\<close>

text \<open>
  Claim C10.  A tag that starts with one of the keys \<^verbatim>\<open>msaa\<close>, \<^verbatim>\<open>save\<close>,
  \<^verbatim>\<open>lw\<close>, \<^verbatim>\<open>frame_px\<close> and that the \<^verbatim>\<open>sscanf\<close> format of the key does not
  match (\<open>store_int\<close> and \<open>store_float\<close> store nothing) is consumed silently: the
  loop body ends normally with the configuration unchanged and without reaching the
  warning.  The warning of line 158 is reached exactly by the tags that start with none
  of the four keys, and for the tag itself.  The tags \<^verbatim>\<open>msaax\<close>, \<^verbatim>\<open>lw:abc\<close> and
  \<^verbatim>\<open>save\<close> are of the first kind; \<^verbatim>\<open>msaa:1\<close> and \<^verbatim>\<open>lw:2.5\<close> are stored;
  \<^verbatim>\<open>width:3\<close> reaches the warning.
\<close>

theorem malformed_tags_silent:
  "(starts_with ''msaa'' tag \<longrightarrow> store_int ''msaa:'' tag = Some None \<longrightarrow> read_tag tag g = Ok g)
   \<and> (starts_with ''save'' tag \<longrightarrow> store_int ''save:'' tag = Some None \<longrightarrow> read_tag tag g = Ok g)
   \<and> (starts_with ''lw'' tag \<longrightarrow> store_float ''lw:'' tag = None \<longrightarrow> read_tag tag g = Ok g)
   \<and> (starts_with ''frame_px'' tag \<longrightarrow> store_float ''frame_px:'' tag = None \<longrightarrow> read_tag tag g = Ok g)
   \<and> ((\<exists>t. read_tag tag g = Undefined (Tag_message t)) \<longleftrightarrow>
        \<not> starts_with ''msaa'' tag \<and> \<not> starts_with ''save'' tag \<and>
        \<not> starts_with ''lw'' tag \<and> \<not> starts_with ''frame_px'' tag)
   \<and> (\<forall>t. read_tag tag g = Undefined (Tag_message t) \<longrightarrow> t = tag)
   \<and> read_tag ''msaax'' g = Ok g \<and> read_tag ''lw:abc'' g = Ok g \<and> read_tag ''save'' g = Ok g
   \<and> read_tag ''msaa:1'' g = Ok (g\<lparr>msaa := 1\<rparr>)
   \<and> read_tag ''lw:2.5'' g = Ok (g\<lparr>line_width := Fin (5 / 2)\<rparr>)
   \<and> read_tag ''width:3'' g = Undefined (Tag_message ''width:3'')"
proof -
  have a: "starts_with ''msaa'' tag \<longrightarrow> store_int ''msaa:'' tag = Some None \<longrightarrow> read_tag tag g = Ok g"
    by (simp add: read_tag_def)
  have p: "starts_with ''save'' tag \<Longrightarrow> \<not> starts_with ''msaa'' tag"
    "starts_with ''lw'' tag \<Longrightarrow> \<not> starts_with ''msaa'' tag \<and> \<not> starts_with ''save'' tag"
    "starts_with ''frame_px'' tag \<Longrightarrow>
       \<not> starts_with ''msaa'' tag \<and> \<not> starts_with ''save'' tag \<and> \<not> starts_with ''lw'' tag"
    by (cases tag; auto simp: starts_with_def)+
  have b: "starts_with ''save'' tag \<longrightarrow> store_int ''save:'' tag = Some None \<longrightarrow> read_tag tag g = Ok g"
    using p(1) by (auto simp: read_tag_def)
  have c: "starts_with ''lw'' tag \<longrightarrow> store_float ''lw:'' tag = None \<longrightarrow> read_tag tag g = Ok g"
    using p(2) by (auto simp: read_tag_def)
  have d: "starts_with ''frame_px'' tag \<longrightarrow> store_float ''frame_px:'' tag = None \<longrightarrow> read_tag tag g = Ok g"
    using p(3) by (auto simp: read_tag_def)
  have w: "(\<exists>t. read_tag tag g = Undefined (Tag_message t)) \<longleftrightarrow>
        \<not> starts_with ''msaa'' tag \<and> \<not> starts_with ''save'' tag \<and>
        \<not> starts_with ''lw'' tag \<and> \<not> starts_with ''frame_px'' tag"
    by (auto simp: read_tag_def split: option.splits)
  have w2: "\<forall>t. read_tag tag g = Undefined (Tag_message t) \<longrightarrow> t = tag"
    by (auto simp: read_tag_def split: option.splits if_splits)
  have ex: "read_tag ''msaax'' g = Ok g \<and> read_tag ''lw:abc'' g = Ok g \<and> read_tag ''save'' g = Ok g
   \<and> read_tag ''msaa:1'' g = Ok (g\<lparr>msaa := 1\<rparr>)
   \<and> read_tag ''lw:2.5'' g = Ok (g\<lparr>line_width := Fin (5 / 2)\<rparr>)
   \<and> read_tag ''width:3'' g = Undefined (Tag_message ''width:3'')"
    by (simp add: run_defs scan_defs flt_round_5_2)
  from a b c d w w2 ex show ?thesis by (intro conjI) simp_all
qed

text \<open>
  A whole run on a header with the three malformed tags of the claim: the configuration
  has its default values and nothing but the count is printed.
\<close>

theorem malformed_tags_silent_witness:
  "starts_with ''msaa'' ''msaax'' \<and> store_int ''msaa:'' ''msaax'' = Some None
   \<and> read_tag ''msaax'' (default_tags graphdata0) = Ok (default_tags graphdata0)
   \<and> starts_with ''lw'' ''lw:abc'' \<and> store_float ''lw:'' ''lw:abc'' = None
   \<and> read_tag ''lw:abc'' (default_tags graphdata0) = Ok (default_tags graphdata0)
   \<and> read_undgraph (file_env ''undgraph msaax lw:abc save\<newline>1\<newline>'') ''undgraph.txt'' =
     Ok (\<lparr>msaa = 0, save = 0, line_width = Fin 1, frame_px = Fin 0, max_value = Fin 1,
          min_value = Fin 1, tick_size = Fin 0, size_g = 1, data = [Some (Fin 1)]\<rparr>,
         [Found_values 1])"
proof -
  note th = malformed_tags_silent [of "''msaax''" "default_tags graphdata0"]
  note th2 = malformed_tags_silent [of "''lw:abc''" "default_tags graphdata0"]
  have a: "starts_with ''msaa'' ''msaax''" and b: "store_int ''msaa:'' ''msaax'' = Some None"
    by (simp_all add: starts_with_def store_int_def scan_lit_def)
  have c: "read_tag ''msaax'' (default_tags graphdata0) = Ok (default_tags graphdata0)"
    by (rule th [THEN conjunct1, rule_format, OF a b])
  have d: "starts_with ''lw'' ''lw:abc''" and e: "store_float ''lw:'' ''lw:abc'' = None"
    by (simp_all add: starts_with_def store_float_def scan_defs)
  have f: "read_tag ''lw:abc'' (default_tags graphdata0) = Ok (default_tags graphdata0)"
    by (rule th2 [THEN conjunct2, THEN conjunct2, THEN conjunct1, rule_format, OF d e])
  from a b c d e f read_malformed_tags show ?thesis by (intro conjI)
qed


section \<open>The vertex formula\<close>

text \<open>
  Claim C2.  Whenever \<^verbatim>\<open>read_undgraph\<close> succeeds with a positive \<^verbatim>\<open>size\<close> and the
  mesh can be allocated, the mesh block succeeds with \<^verbatim>\<open>size\<close> vertices, every
  sample \<open>data[i]\<close> with \<open>i < size\<close> has been written, and vertex \<open>i\<close> is
  \<open>x = frame_px + i * (1152 - 2 * frame_px) / size\<close> and
  \<open>y = frame_px + (data[i] / max_value) * (648 - 2 * frame_px)\<close>, each operation
  being the single-precision one, in the order in which C evaluates the expression.
  In real numbers, as long as the intermediate results are finite: every operation is
  the exact one followed by a rounding to the nearest \<^verbatim>\<open>float\<close>.
\<close>

theorem mesh_vertex_formula:
  assumes "read_undgraph e fn = Ok (g, out0)" and "malloc_ok e (8 * size_g g)"
    and "0 < size_g g" and "i < size_g g"
  shows "\<exists>mesh out v x y. build_mesh e g = Ok (mesh, out) \<and> length mesh = size_g g
    \<and> data g ! i = Some v \<and> mesh ! i = Some (x, y)
    \<and> x = fadd (frame_px g)
            (fdiv (fmul (flt_of_nat i) (fsub (Fin 1152) (fmul (Fin 2) (frame_px g))))
                  (flt_of_nat (size_g g)))
    \<and> y = fadd (frame_px g)
            (fmul (fdiv v (max_value g)) (fsub (Fin 648) (fmul (Fin 2) (frame_px g))))
    \<and> (\<forall>p a t w b s c. frame_px g = Fin p \<and> flt_round (real i) = Fin a
          \<and> flt_round (2 * p) = Fin t \<and> flt_round (1152 - t) = Fin w
          \<and> flt_round (a * w) = Fin b \<and> flt_round (real (size_g g)) = Fin s
          \<and> flt_round (b / s) = Fin c
        \<longrightarrow> x = flt_round (p + c))
    \<and> (\<forall>p u m r t h k. frame_px g = Fin p \<and> v = Fin u \<and> max_value g = Fin m
          \<and> flt_round (u / m) = Fin r \<and> flt_round (2 * p) = Fin t
          \<and> flt_round (648 - t) = Fin h \<and> flt_round (r * h) = Fin k
        \<longrightarrow> y = flt_round (p + k))"
proof -
  from read_undgraph_cells [OF assms(1)] have len: "length (data g) = size_g g"
    and some: "\<forall>k<size_g g. data g ! k \<noteq> None" by simp_all
  from mesh_loop_total [OF len some, of 0 "replicate (size_g g) None" "[]"] assms(2)
  obtain mesh out where b: "build_mesh e g = Ok (mesh, out)"
    by (auto simp: build_mesh_def)
  from build_mesh_Ok [OF b assms(4)] obtain v where lm: "length mesh = size_g g"
    and v: "data g ! i = Some v" and m: "mesh ! i = Some (vertex_x g i, vertex_y g v)"
    by blast
  have x: "vertex_x g i = fadd (frame_px g)
            (fdiv (fmul (flt_of_nat i) (fsub (Fin 1152) (fmul (Fin 2) (frame_px g))))
                  (flt_of_nat (size_g g)))"
    by (simp add: vertex_x_def flt_of_int_WIDTH flt_of_int_2 fmul_commute [of "Fin 2"])
  have y: "vertex_y g v' = fadd (frame_px g)
            (fmul (fdiv v' (max_value g)) (fsub (Fin 648) (fmul (Fin 2) (frame_px g))))" for v'
    by (simp add: vertex_y_def flt_of_int_HEIGHT flt_of_int_2 fmul_commute [of "Fin 2"])
  have xr: "vertex_x g i = flt_round (p + c)"
    if "frame_px g = Fin p \<and> flt_round (real i) = Fin a
          \<and> flt_round (2 * p) = Fin t \<and> flt_round (1152 - t) = Fin w
          \<and> flt_round (a * w) = Fin b \<and> flt_round (real (size_g g)) = Fin s
          \<and> flt_round (b / s) = Fin c" for p a t w b s c
  proof -
    from that assms(3) have "1 \<le> s" using flt_round_nat_pos by blast
    then have "s \<noteq> 0" by simp
    with that show ?thesis by (simp add: x flt_of_nat_def fsub_def)
  qed
  have "0 < FLT_MIN" by (simp add: FLT_MIN_def)
  with read_undgraph_max_lower [OF assms(1)] have mpos: "max_value g = Fin m \<Longrightarrow> m \<noteq> 0" for m
    by (auto simp: fle_def)
  have yr: "vertex_y g v = flt_round (p + k)"
    if "frame_px g = Fin p \<and> v = Fin u \<and> max_value g = Fin m
          \<and> flt_round (u / m) = Fin r \<and> flt_round (2 * p) = Fin t
          \<and> flt_round (648 - t) = Fin h \<and> flt_round (r * h) = Fin k" for p u m r t h k
    using that mpos [of m] by (simp add: y fsub_def)
  from b lm v m x y xr yr show ?thesis by blast
qed

theorem mesh_vertex_formula_witness:
  "read_undgraph (file_env ''undgraph frame_px:10\<newline>5\<newline>-5\<newline>'') ''undgraph.txt'' =
     Ok (\<lparr>msaa = 0, save = 0, line_width = Fin 1, frame_px = Fin 10, max_value = Fin 5,
          min_value = Fin (- 5), tick_size = Fin 5, size_g = 2,
          data = [Some (Fin 5), Some (Fin (- 5))]\<rparr>, [Found_values 2])
   \<and> malloc_ok (file_env ''undgraph frame_px:10\<newline>5\<newline>-5\<newline>'') (8 * 2)
   \<and> (0::nat) < 2 \<and> (1::nat) < 2
   \<and> build_mesh (file_env ''undgraph frame_px:10\<newline>5\<newline>-5\<newline>'')
       \<lparr>msaa = 0, save = 0, line_width = Fin 1, frame_px = Fin 10, max_value = Fin 5,
        min_value = Fin (- 5), tick_size = Fin 5, size_g = 2,
        data = [Some (Fin 5), Some (Fin (- 5))]\<rparr> =
     Ok ([Some (Fin 10, Fin 638), Some (Fin 576, Fin (- 618))], [])
   \<and> Fin 576 = fadd (Fin 10) (fdiv (fmul (flt_of_nat 1) (fsub (Fin 1152) (fmul (Fin 2) (Fin 10))))
                                   (flt_of_nat 2))
   \<and> Fin (- 618) = fadd (Fin 10) (fmul (fdiv (Fin (- 5)) (Fin 5))
                                        (fsub (Fin 648) (fmul (Fin 2) (Fin 10))))
   \<and> Fin 576 = flt_round (10 + 566)
   \<and> Fin (- 618) = flt_round (10 + - 628)"
proof -
  let ?e = "file_env ''undgraph frame_px:10\<newline>5\<newline>-5\<newline>''"
  let ?g = "\<lparr>msaa = 0, save = 0, line_width = Fin 1, frame_px = Fin 10, max_value = Fin 5,
      min_value = Fin (- 5), tick_size = Fin 5, size_g = 2,
      data = [Some (Fin 5), Some (Fin (- 5))]\<rparr>"
  have m: "malloc_ok ?e (8 * size_g ?g)" by (simp add: file_env_def)
  have p: "0 < size_g ?g" and i: "1 < size_g ?g" by simp_all
  from mesh_vertex_formula [OF read_padded m p i]
  obtain mesh out v x y where b: "build_mesh ?e ?g = Ok (mesh, out)"
    and v: "data ?g ! 1 = Some v" and mi: "mesh ! 1 = Some (x, y)"
    and x: "x = fadd (frame_px ?g)
            (fdiv (fmul (flt_of_nat 1) (fsub (Fin 1152) (fmul (Fin 2) (frame_px ?g))))
                  (flt_of_nat (size_g ?g)))"
    and y: "y = fadd (frame_px ?g)
            (fmul (fdiv v (max_value ?g)) (fsub (Fin 648) (fmul (Fin 2) (frame_px ?g))))"
    and xr: "\<forall>p a t w b s c. frame_px ?g = Fin p \<and> flt_round (real 1) = Fin a
          \<and> flt_round (2 * p) = Fin t \<and> flt_round (1152 - t) = Fin w
          \<and> flt_round (a * w) = Fin b \<and> flt_round (real (size_g ?g)) = Fin s
          \<and> flt_round (b / s) = Fin c
        \<longrightarrow> x = flt_round (p + c)"
    and yr: "\<forall>p u m r t h k. frame_px ?g = Fin p \<and> v = Fin u \<and> max_value ?g = Fin m
          \<and> flt_round (u / m) = Fin r \<and> flt_round (2 * p) = Fin t
          \<and> flt_round (648 - t) = Fin h \<and> flt_round (r * h) = Fin k
        \<longrightarrow> y = flt_round (p + k)"
    by blast
  from b mesh_padded have "mesh = [Some (Fin 10, Fin 638), Some (Fin 576, Fin (- 618))]" by simp
  with mi have xv: "x = Fin 576" and yv: "y = Fin (- 618)" by simp_all
  from v have vv: "v = Fin (- 5)" by simp
  have c1: "Fin 576 = fadd (Fin 10) (fdiv (fmul (flt_of_nat 1) (fsub (Fin 1152) (fmul (Fin 2) (Fin 10))))
                                   (flt_of_nat 2))"
    using x unfolding xv by simp
  have c2: "Fin (- 618) = fadd (Fin 10) (fmul (fdiv (Fin (- 5)) (Fin 5))
                                        (fsub (Fin 648) (fmul (Fin 2) (Fin 10))))"
    using y unfolding yv vv by simp
  have "x = flt_round (10 + 566)"
    by (rule xr [rule_format, of 10 1 20 1132 1132 2 566]) (simp add: flt_round_numeral)
  then have c3: "Fin 576 = flt_round (10 + 566)" unfolding xv .
  have "y = flt_round (10 + - 628)"
    by (rule yr [rule_format, of 10 "- 5" 5 "- 1" 20 628 "- 628"])
       (simp add: vv flt_round_numeral flt_round_neg_numeral flt_round_neg_1)
  then have c4: "Fin (- 618) = flt_round (10 + - 628)" unfolding yv .
  have m': "malloc_ok ?e (8 * 2)" by (simp add: file_env_def)
  have "(0::nat) < 2" and "(1::nat) < 2" by simp_all
  with read_padded m' mesh_padded c1 c2 c3 c4 show ?thesis by (intro conjI)
qed


section \<open>The x coordinates\<close>

text \<open>
  Claim C5, as stated, fails for an infinite padding.  The tag \<^verbatim>\<open>frame_px:-inf\<close> is
  accepted by \<^verbatim>\<open>%f\<close>, and \<open>2 * frame_px\<close> is below the width 1152; but
  \<open>1152 - 2 * frame_px\<close> is \<open>+inf\<close>, its product with \<open>(float)0\<close> is a NaN, and
  \<open>-inf + inf\<close> is one as well: every x coordinate is a NaN, which the loop reports,
  and \<open>x[0] \<le> x[1]\<close> is false.
\<close>

theorem infinite_padding_gives_nan:
  "read_undgraph (file_env ''undgraph frame_px:-inf\<newline>1\<newline>2\<newline>'') ''undgraph.txt'' =
     Ok (\<lparr>msaa = 0, save = 0, line_width = Fin 1, frame_px = NInf, max_value = Fin 2,
          min_value = Fin 1, tick_size = Fin (1 / 2), size_g = 2,
          data = [Some (Fin 1), Some (Fin 2)]\<rparr>, [Found_values 2])
   \<and> flt (fmul (Fin 2) NInf) (Fin 1152)
   \<and> build_mesh (file_env ''undgraph frame_px:-inf\<newline>1\<newline>2\<newline>'')
       \<lparr>msaa = 0, save = 0, line_width = Fin 1, frame_px = NInf, max_value = Fin 2,
        min_value = Fin 1, tick_size = Fin (1 / 2), size_g = 2,
        data = [Some (Fin 1), Some (Fin 2)]\<rparr> =
     Ok ([Some (NaN, NaN), Some (NaN, NaN)],
         [Vertex_x_nan 0, Vertex_y_nan 0, Vertex_x_nan 1, Vertex_y_nan 1])
   \<and> \<not> fle NaN NaN"
  by (simp add: read_infinite_padding mesh_infinite_padding fle_def)

text \<open>
  Claim C5, as amended.  For every mesh that the mesh block builds from a
  configuration whose doubled padding \<open>2 * frame_px\<close> is finite and below the width
  1152, with a \<^verbatim>\<open>size\<close> in the range of \<^verbatim>\<open>size_t\<close>, the x coordinates do not
  decrease: \<open>x[i] \<le> x[i + 1]\<close> whenever \<open>i + 1 < size\<close>, in the comparison of
  \<^verbatim>\<open>float\<close>.
\<close>

theorem mesh_x_nondecreasing:
  assumes "build_mesh e g = Ok (mesh, out)" and "size_g g < 2 ^ 64" and "Suc i < size_g g"
    and "fmul (Fin 2) (frame_px g) = Fin t" and "t < 1152"
  shows "\<exists>x y x' y'. mesh ! i = Some (x, y) \<and> mesh ! Suc i = Some (x', y') \<and> fle x x'"
proof -
  from assms(3) have i: "i < size_g g" by simp
  from build_mesh_Ok [OF assms(1) i] obtain v where a: "mesh ! i = Some (vertex_x g i, vertex_y g v)"
    by blast
  from build_mesh_Ok [OF assms(1,3)] obtain v' where
    b: "mesh ! Suc i = Some (vertex_x g (Suc i), vertex_y g v')" by blast
  from vertex_x_mono [OF assms(2-5)] a b show ?thesis by blast
qed

theorem mesh_x_nondecreasing_witness:
  "build_mesh (file_env ''undgraph frame_px:10\<newline>5\<newline>-5\<newline>'')
     \<lparr>msaa = 0, save = 0, line_width = Fin 1, frame_px = Fin 10, max_value = Fin 5,
      min_value = Fin (- 5), tick_size = Fin 5, size_g = 2,
      data = [Some (Fin 5), Some (Fin (- 5))]\<rparr> =
   Ok ([Some (Fin 10, Fin 638), Some (Fin 576, Fin (- 618))], [])
   \<and> (2::nat) < 2 ^ 64 \<and> Suc 0 < 2
   \<and> fmul (Fin 2) (Fin 10) = Fin 20 \<and> (20::real) < 1152
   \<and> fle (Fin 10) (Fin 576)"
proof -
  let ?g = "\<lparr>msaa = 0, save = 0, line_width = Fin 1, frame_px = Fin 10, max_value = Fin 5,
      min_value = Fin (- 5), tick_size = Fin 5, size_g = 2,
      data = [Some (Fin 5), Some (Fin (- 5))]\<rparr>"
  have s: "size_g ?g < 2 ^ 64" and i: "Suc 0 < size_g ?g" by simp_all
  have t: "fmul (Fin 2) (frame_px ?g) = Fin 20" by (simp add: flt_round_numeral)
  have l: "(20::real) < 1152" by simp
  from mesh_x_nondecreasing [OF mesh_padded s i t l]
  obtain x y x' y' where "Some (Fin 10, Fin 638) = Some (x, y)"
    and "Some (Fin 576, Fin (- 618)) = Some (x', y')" and "fle x x'"
    by auto
  then have "fle (Fin 10) (Fin 576)" by simp
  with mesh_padded s i t l show ?thesis by simp
qed

end
